theory Spec2Isabelle
  imports Complex_Main "HOL-Library.Word"
begin

unbundle bit_operations_syntax

section \<open>Python values used by the program\<close>

text \<open>
  Python integers are unbounded and are modelled by \<^typ>\<open>int\<close>; a \<open>bytes\<close> object is a
  list of 8-bit words. Every exception the program can raise is a value of \<open>error\<close>.
\<close>

type_synonym byte = "8 word"
type_synonym bytes = "byte list"

datatype error =
    ValueError
  | NotImplementedError
  | UnicodeDecodeError
  | ZeroDivisionError
  | IndexError
  | OverflowError
  | AttributeError
  | StructError

text \<open>\<open>int.from_bytes(b, "little")\<close>.\<close>

fun from_bytes_little :: "bytes \<Rightarrow> int" where
  "from_bytes_little [] = 0"
| "from_bytes_little (b # bs) = uint b + 256 * from_bytes_little bs"

text \<open>\<open>x.to_bytes(n, "little")\<close>: OverflowError for a negative or too large \<open>x\<close>.\<close>

fun to_bytes_digits :: "nat \<Rightarrow> int \<Rightarrow> bytes" where
  "to_bytes_digits 0 x = []"
| "to_bytes_digits (Suc n) x = word_of_int (x mod 256) # to_bytes_digits n (x div 256)"

definition to_bytes_little :: "int \<Rightarrow> nat \<Rightarrow> error + bytes" where
  "to_bytes_little x n =
     (if x < 0 \<or> 2 ^ (8 * n) \<le> x then Inl OverflowError else Inr (to_bytes_digits n x))"

text \<open>\<open>x.bit_length()\<close>: the number of bits of the absolute value.\<close>

fun bit_length_nat :: "nat \<Rightarrow> nat" where
  "bit_length_nat n = (if n = 0 then 0 else Suc (bit_length_nat (n div 2)))"

declare bit_length_nat.simps [simp del]

definition bit_length :: "int \<Rightarrow> int" where
  "bit_length x = int (bit_length_nat (nat \<bar>x\<bar>))"

text \<open>\<open>str(k).encode()\<close>: the decimal digits in ASCII, with a minus sign when negative.\<close>

fun digits :: "nat \<Rightarrow> bytes" where
  "digits n = (if n < 10 then [of_nat (48 + n)] else digits (n div 10) @ [of_nat (48 + n mod 10)])"

declare digits.simps [simp del]

definition str_encode :: "int \<Rightarrow> bytes" where
  "str_encode k = (if k < 0 then 45 # digits (nat (- k)) else digits (nat k))"

text \<open>\<open>range(n)\<close>, \<open>a % b\<close> and \<open>a << n\<close> with the exceptions Python raises.\<close>

definition py_range :: "int \<Rightarrow> int list" where
  "py_range n = map int [0 ..< nat n]"

definition py_mod :: "int \<Rightarrow> int \<Rightarrow> error + int" where
  "py_mod a b = (if b = 0 then Inl ZeroDivisionError else Inr (a mod b))"

definition py_lshift :: "int \<Rightarrow> int \<Rightarrow> error + int" where
  "py_lshift a n = (if n < 0 then Inl ValueError else Inr (push_bit (nat n) a))"

text \<open>\<open>math.ceil(n / 8)\<close> for an integer \<open>n\<close> (exact below \<open>2 ^ 53\<close>).\<close>

definition ceil_div8 :: "int \<Rightarrow> int" where
  "ceil_div8 n = - ((- n) div 8)"

text \<open>
  \<open>bytes.decode()\<close>: strict UTF-8 decoding into code points; overlong forms, surrogates
  and values beyond U+10FFFF raise UnicodeDecodeError.
\<close>

definition is_cont :: "byte \<Rightarrow> bool" where
  "is_cont b = (0x80 \<le> b \<and> b \<le> 0xBF)"

definition cons_ok :: "nat \<Rightarrow> error + nat list \<Rightarrow> error + nat list" where
  "cons_ok c r = (case r of Inl e \<Rightarrow> Inl e | Inr cs \<Rightarrow> Inr (c # cs))"

fun decode :: "bytes \<Rightarrow> error + nat list" where
  "decode [] = Inr []"
| "decode (b0 # bs) =
     (if b0 < 0x80 then cons_ok (unat b0) (decode bs)
      else if 0xC2 \<le> b0 \<and> b0 \<le> 0xDF then
        (case bs of
           b1 # r \<Rightarrow>
             if is_cont b1
             then cons_ok ((unat b0 - 0xC0) * 64 + (unat b1 - 0x80)) (decode r)
             else Inl UnicodeDecodeError
         | _ \<Rightarrow> Inl UnicodeDecodeError)
      else if 0xE0 \<le> b0 \<and> b0 \<le> 0xEF then
        (case bs of
           b1 # b2 # r \<Rightarrow>
             if is_cont b1 \<and> is_cont b2 \<and> (b0 = 0xE0 \<longrightarrow> 0xA0 \<le> b1) \<and> (b0 = 0xED \<longrightarrow> b1 \<le> 0x9F)
             then cons_ok ((unat b0 - 0xE0) * 4096 + (unat b1 - 0x80) * 64 + (unat b2 - 0x80))
                    (decode r)
             else Inl UnicodeDecodeError
         | _ \<Rightarrow> Inl UnicodeDecodeError)
      else if 0xF0 \<le> b0 \<and> b0 \<le> 0xF4 then
        (case bs of
           b1 # b2 # b3 # r \<Rightarrow>
             if is_cont b1 \<and> is_cont b2 \<and> is_cont b3
                \<and> (b0 = 0xF0 \<longrightarrow> 0x90 \<le> b1) \<and> (b0 = 0xF4 \<longrightarrow> b1 \<le> 0x8F)
             then cons_ok ((unat b0 - 0xF0) * 262144 + (unat b1 - 0x80) * 4096
                            + (unat b2 - 0x80) * 64 + (unat b3 - 0x80)) (decode r)
             else Inl UnicodeDecodeError
         | _ \<Rightarrow> Inl UnicodeDecodeError)
      else Inl UnicodeDecodeError)"

text \<open>A Python \<open>str\<close> literal of ASCII characters, as code points.\<close>

definition str_lit :: "string \<Rightarrow> nat list" where
  "str_lit s = map of_char s"


section \<open>hashlib.blake2b\<close>

text \<open>
  The program hashes with \<open>hashlib.blake2b\<close>. This is library code; the function below
  follows RFC 7693 (sequential mode, no salt, no personalisation), which is what
  \<open>hashlib.blake2b(data, digest_size=nn, key=key).digest()\<close> computes. 64-bit words are
  integers with the wrap-around written out. A digest size outside 1..64 or a key longer
  than 64 bytes raises ValueError.
\<close>

definition blake2b_IV :: "int list" where
  "blake2b_IV =
     [0x6a09e667f3bcc908, 0xbb67ae8584caa73b, 0x3c6ef372fe94f82b, 0xa54ff53a5f1d36f1,
      0x510e527fade682d1, 0x9b05688c2b3e6c1f, 0x1f83d9abfb41bd6b, 0x5be0cd19137e2179]"

definition blake2b_sigma :: "nat list list" where
  "blake2b_sigma =
   [[0, 1, 2, 3, 4, 5, 6, 7, 8, 9, 10, 11, 12, 13, 14, 15],
    [14, 10, 4, 8, 9, 15, 13, 6, 1, 12, 0, 2, 11, 7, 5, 3],
    [11, 8, 12, 0, 5, 2, 15, 13, 10, 14, 3, 6, 7, 1, 9, 4],
    [7, 9, 3, 1, 13, 12, 11, 14, 2, 6, 5, 10, 4, 0, 15, 8],
    [9, 0, 5, 7, 2, 4, 10, 15, 14, 1, 11, 12, 6, 8, 3, 13],
    [2, 12, 6, 10, 0, 11, 8, 3, 4, 13, 7, 5, 15, 14, 1, 9],
    [12, 5, 1, 15, 14, 13, 4, 10, 0, 7, 6, 3, 9, 2, 8, 11],
    [13, 11, 7, 14, 12, 1, 3, 9, 5, 0, 15, 4, 8, 6, 2, 10],
    [6, 15, 14, 9, 11, 3, 0, 8, 12, 2, 13, 7, 1, 4, 10, 5],
    [10, 2, 8, 4, 7, 6, 1, 5, 15, 11, 9, 14, 3, 12, 13, 0],
    [0, 1, 2, 3, 4, 5, 6, 7, 8, 9, 10, 11, 12, 13, 14, 15],
    [14, 10, 4, 8, 9, 15, 13, 6, 1, 12, 0, 2, 11, 7, 5, 3]]"

definition add64 :: "int \<Rightarrow> int \<Rightarrow> int" where
  "add64 a b = (a + b) AND 18446744073709551615"

definition rotr64 :: "int \<Rightarrow> nat \<Rightarrow> int" where
  "rotr64 x n = drop_bit n x OR push_bit (64 - n) (take_bit n x)"

definition mix_add :: "int list \<Rightarrow> nat \<Rightarrow> nat \<Rightarrow> int \<Rightarrow> int list" where
  "mix_add v a b x = v[a := add64 (add64 (v ! a) (v ! b)) x]"

definition mix_rot :: "int list \<Rightarrow> nat \<Rightarrow> nat \<Rightarrow> nat \<Rightarrow> int list" where
  "mix_rot v d a r = v[d := rotr64 ((v ! d) XOR (v ! a)) r]"

text \<open>The mixing function \<open>G\<close> on the working vector.\<close>

definition blake2b_G :: "int list \<Rightarrow> nat \<Rightarrow> nat \<Rightarrow> nat \<Rightarrow> nat \<Rightarrow> int \<Rightarrow> int \<Rightarrow> int list" where
  "blake2b_G v a b c d x y =
     mix_rot (mix_add (mix_rot (mix_add (mix_rot (mix_add (mix_rot (mix_add v a b x)
       d a 32) c d 0) b c 24) a b y) d a 16) c d 0) b c 63"

definition blake2b_round :: "int list \<Rightarrow> int list \<Rightarrow> nat list \<Rightarrow> int list" where
  "blake2b_round m v s =
     blake2b_G (blake2b_G (blake2b_G (blake2b_G (blake2b_G (blake2b_G (blake2b_G (blake2b_G v
       0 4 8 12 (m ! (s ! 0)) (m ! (s ! 1)))
       1 5 9 13 (m ! (s ! 2)) (m ! (s ! 3)))
       2 6 10 14 (m ! (s ! 4)) (m ! (s ! 5)))
       3 7 11 15 (m ! (s ! 6)) (m ! (s ! 7)))
       0 5 10 15 (m ! (s ! 8)) (m ! (s ! 9)))
       1 6 11 12 (m ! (s ! 10)) (m ! (s ! 11)))
       2 7 8 13 (m ! (s ! 12)) (m ! (s ! 13)))
       3 4 9 14 (m ! (s ! 14)) (m ! (s ! 15))"

definition block_words :: "bytes \<Rightarrow> int list" where
  "block_words block = map (\<lambda>i. from_bytes_little (take 8 (drop (8 * i) block))) [0 ..< 16]"

definition init_v :: "int list \<Rightarrow> int \<Rightarrow> bool \<Rightarrow> int list" where
  "init_v h t final =
     (h @ blake2b_IV)
       [12 := (blake2b_IV ! 4) XOR (t AND 18446744073709551615),
        13 := (blake2b_IV ! 5) XOR (drop_bit 64 t),
        14 := (if final then (blake2b_IV ! 6) XOR 18446744073709551615 else blake2b_IV ! 6)]"

definition finish_h :: "int list \<Rightarrow> int list \<Rightarrow> int list" where
  "finish_h h v = map (\<lambda>i. (h ! i) XOR (v ! i) XOR (v ! (i + 8))) [0 ..< 8]"

text \<open>The compression function \<open>F\<close>: twelve rounds over the message block.\<close>

definition blake2b_compress :: "int list \<Rightarrow> bytes \<Rightarrow> int \<Rightarrow> bool \<Rightarrow> int list" where
  "blake2b_compress h block t final =
     finish_h h (foldl (blake2b_round (block_words block)) (init_v h t final) blake2b_sigma)"

fun chunks128 :: "bytes \<Rightarrow> bytes list" where
  "chunks128 bs = (if length bs \<le> 128 then [bs] else take 128 bs # chunks128 (drop 128 bs))"

declare chunks128.simps [simp del]

fun blake2b_blocks :: "int list \<Rightarrow> int \<Rightarrow> bytes list \<Rightarrow> int list" where
  "blake2b_blocks h t [] = h"
| "blake2b_blocks h t [b] =
     blake2b_compress h (b @ replicate (128 - length b) 0) (t + int (length b)) True"
| "blake2b_blocks h t (b # bs) =
     blake2b_blocks (blake2b_compress h b (t + 128) False) (t + 128) bs"

definition blake2b :: "bytes \<Rightarrow> int \<Rightarrow> bytes \<Rightarrow> error + bytes" where
  "blake2b data nn key =
     (if nn < 1 \<or> 64 < nn \<or> 64 < length key then Inl ValueError
      else
        let kk = int (length key);
            h0 = blake2b_IV[0 := (blake2b_IV ! 0) XOR (0x01010000 XOR (kk * 256) XOR nn)];
            input = (if 0 < kk then key @ replicate (128 - length key) 0 else []) @ data
        in Inr (take (nat nn)
                 (concat (map (to_bytes_digits 8) (blake2b_blocks h0 0 (chunks128 input))))))"

section \<open>bloom.py\<close>

definition FILTER_SIZE :: int where
  "FILTER_SIZE = 100000"

definition HASH_ROUNDS :: int where
  "HASH_ROUNDS = 3"

record BloomFilter =
  byte_size :: int
  bit_size :: int
  digest_size :: int
  hash_rounds :: int
  filter_val :: int

text \<open>\<open>BloomFilter.__init__(byte_size, hash_rounds, filter)\<close>.\<close>

definition BloomFilter_init :: "int \<Rightarrow> int \<Rightarrow> int \<Rightarrow> error + BloomFilter" where
  "BloomFilter_init bs hr f =
     (if bit_length f > bs * 8 then Inl ValueError
      else Inr \<lparr> byte_size = bs, bit_size = bs * 8,
                 digest_size = ceil_div8 (bit_length (bs * 8)),
                 hash_rounds = hr, filter_val = f \<rparr>)"

text \<open>
  The filter operations take the hash function as the parameter \<open>H\<close> (data, digest
  size, key); the program always passes \<open>blake2b\<close>.
\<close>

type_synonym blake2b_fn = "bytes \<Rightarrow> int \<Rightarrow> bytes \<Rightarrow> error + bytes"

text \<open>
  \<open>generate_hashes\<close> is a generator: the outcome of each round is produced on demand,
  so the list holds one outcome per round and a consumer stops at the first error.
\<close>

definition generate_hashes :: "blake2b_fn \<Rightarrow> BloomFilter \<Rightarrow> int \<Rightarrow> (error + int) list" where
  "generate_hashes H self key =
     (let key' = str_encode key in
      map (\<lambda>i. case H key' (digest_size self) (str_encode i) of
                  Inl e \<Rightarrow> Inl e
                | Inr digest \<Rightarrow> py_mod (from_bytes_little digest) (bit_size self))
          (py_range (hash_rounds self)))"

fun add_loop :: "BloomFilter \<Rightarrow> (error + int) list \<Rightarrow> BloomFilter \<times> error option" where
  "add_loop self [] = (self, None)"
| "add_loop self (Inl e # rest) = (self, Some e)"
| "add_loop self (Inr index # rest) =
     (case py_lshift 1 index of
        Inl e \<Rightarrow> (self, Some e)
      | Inr m \<Rightarrow> add_loop (self\<lparr>filter_val := filter_val self OR m\<rparr>) rest)"

text \<open>\<open>add\<close> mutates the filter; the result is the filter afterwards and the exception, if any.\<close>

definition add :: "blake2b_fn \<Rightarrow> BloomFilter \<Rightarrow> int \<Rightarrow> BloomFilter \<times> error option" where
  "add H self key = add_loop self (generate_hashes H self key)"

fun checker_loop :: "int \<Rightarrow> (error + int) list \<Rightarrow> error + int" where
  "checker_loop checker [] = Inr checker"
| "checker_loop checker (Inl e # rest) = Inl e"
| "checker_loop checker (Inr index # rest) =
     (case py_lshift 1 index of
        Inl e \<Rightarrow> Inl e
      | Inr m \<Rightarrow> checker_loop (checker OR m) rest)"

text \<open>\<open>BloomFilter.__contains__\<close> (and \<open>query\<close>, which calls it).\<close>

definition bf_contains :: "blake2b_fn \<Rightarrow> BloomFilter \<Rightarrow> int \<Rightarrow> error + bool" where
  "bf_contains H self key =
     (case checker_loop 0 (generate_hashes H self key) of
        Inl e \<Rightarrow> Inl e
      | Inr checker \<Rightarrow> Inr ((checker AND filter_val self) = checker))"

definition query :: "blake2b_fn \<Rightarrow> BloomFilter \<Rightarrow> int \<Rightarrow> error + bool" where
  "query H self key = bf_contains H self key"

definition same_param :: "BloomFilter \<Rightarrow> BloomFilter \<Rightarrow> bool" where
  "same_param self other =
     (byte_size self = byte_size other \<and> hash_rounds self = hash_rounds other)"

text \<open>\<open>BloomFilter.__or__\<close> and \<open>BloomFilter.__and__\<close>.\<close>

definition bf_or :: "BloomFilter \<Rightarrow> BloomFilter \<Rightarrow> error + BloomFilter" where
  "bf_or self other =
     (if \<not> same_param self other then Inl NotImplementedError
      else BloomFilter_init (byte_size self) (hash_rounds self)
             (filter_val self OR filter_val other))"

definition bf_and :: "BloomFilter \<Rightarrow> BloomFilter \<Rightarrow> error + BloomFilter" where
  "bf_and self other =
     (if \<not> same_param self other then Inl NotImplementedError
      else BloomFilter_init (byte_size self) (hash_rounds self)
             (filter_val self AND filter_val other))"

text \<open>
  \<open>BloomFilter.count\<close>: the loop \<open>while filter: c += 1; filter &= filter - 1\<close>. On a
  negative integer the loop never reaches 0, so the result is optional: \<open>None\<close> stands
  for a call that does not return.
\<close>

partial_function (option) count_loop :: "int \<Rightarrow> int \<Rightarrow> int option" where
  "count_loop c f = (if f \<noteq> 0 then count_loop (c + 1) (f AND (f - 1)) else Some c)"

definition count :: "BloomFilter \<Rightarrow> int option" where
  "count self = count_loop 0 (filter_val self)"

text \<open>The number of set bits of a non-negative integer, the reference for \<open>count\<close>.\<close>

function popcount :: "int \<Rightarrow> int" where
  "popcount f = (if f \<le> 0 then 0 else f mod 2 + popcount (f div 2))"
  by pat_completeness auto
termination
  by (relation "measure nat") auto

declare popcount.simps [simp del]


subsection \<open>Reachable filters\<close>


definition consistent :: "BloomFilter \<Rightarrow> bool" where
  "consistent b = (bit_size b = byte_size b * 8
      \<and> digest_size b = ceil_div8 (bit_length (byte_size b * 8)))"

inductive reachable :: "blake2b_fn \<Rightarrow> (int \<times> int \<times> int) set \<Rightarrow> BloomFilter \<Rightarrow> bool"
  for H :: blake2b_fn and C :: "(int \<times> int \<times> int) set" where
  by_init: "(bs, hr, f) \<in> C \<Longrightarrow> BloomFilter_init bs hr f = Inr b \<Longrightarrow> reachable H C b"
| by_add: "reachable H C b \<Longrightarrow> add H b key = (b', e) \<Longrightarrow> reachable H C b'"
| by_or: "reachable H C a \<Longrightarrow> reachable H C b \<Longrightarrow> bf_or a b = Inr c \<Longrightarrow> reachable H C c"
| by_and: "reachable H C a \<Longrightarrow> reachable H C b \<Longrightarrow> bf_and a b = Inr c \<Longrightarrow> reachable H C c"

definition in_bounds :: "BloomFilter \<Rightarrow> bool" where
  "in_bounds b = (0 \<le> byte_size b \<and> bit_size b = byte_size b * 8
      \<and> filter_val b < 2 ^ nat (8 * byte_size b))"

definition small_nonneg :: "BloomFilter \<Rightarrow> bool" where
  "small_nonneg b = (byte_size b \<le> FILTER_SIZE \<and> 0 \<le> filter_val b)"


subsection \<open>Concrete filters\<close>

text \<open>
  A filter with the default parameters (as \<open>BloomFilter(filter=f)\<close> builds it), and the
  three bit indices that \<open>generate_hashes\<close> yields for the key 0 under BLAKE2b.
\<close>

definition default_bf :: "int \<Rightarrow> BloomFilter" where
  "default_bf f = \<lparr> byte_size = FILTER_SIZE, bit_size = FILTER_SIZE * 8, digest_size = 3,
                    hash_rounds = HASH_ROUNDS, filter_val = f \<rparr>"

definition idx_a :: nat where
  "idx_a = 757706"

definition idx_b :: nat where
  "idx_b = 271472"

definition idx_c :: nat where
  "idx_c = 546131"

text \<open>Three filters over those indices: one bit, the other two bits, and their union.\<close>

definition cex_f :: BloomFilter where
  "cex_f = default_bf (2 ^ idx_a)"

definition cex_g :: BloomFilter where
  "cex_g = default_bf (2 ^ idx_b OR 2 ^ idx_c)"

definition cex_u :: BloomFilter where
  "cex_u = default_bf (2 ^ idx_a OR (2 ^ idx_b OR 2 ^ idx_c))"

section \<open>backend.py\<close>

text \<open>
  A TCP connection as the server sees it: the chunks that successive \<open>recv\<close> calls
  would deliver. \<open>recv(n)\<close> returns at most \<open>n\<close> bytes of the first chunk; once the peer
  has closed and nothing is left it returns the empty bytes object, every time.
\<close>

type_synonym conn = "bytes list"

fun sock_recv :: "conn \<Rightarrow> nat \<Rightarrow> bytes \<times> conn" where
  "sock_recv [] n = ([], [])"
| "sock_recv (c # cs) n =
     (if length c \<le> n then (c, cs) else (take n c, drop n c # cs))"

text \<open>
  \<open>Backend.recv(sock, length)\<close>: loops until \<open>length\<close> bytes have arrived. After the peer
  has closed, \<open>so_far\<close> no longer grows and the loop never ends (\<open>None\<close>).
\<close>

partial_function (option) recv_loop :: "conn \<Rightarrow> nat \<Rightarrow> bytes list \<Rightarrow> nat \<Rightarrow> (bytes \<times> conn) option" where
  "recv_loop sock len data so_far =
     (if so_far < len then
        (case sock_recv sock (len - so_far) of
           (d, sock') \<Rightarrow> recv_loop sock' len (data @ [d]) (so_far + length d))
      else Some (concat data, sock))"

definition recv :: "conn \<Rightarrow> nat \<Rightarrow> (bytes \<times> conn) option" where
  "recv sock len = recv_loop sock len [[]] 0"

record Backend =
  bf :: BloomFilter
  port :: int

definition Backend_init :: "int \<Rightarrow> error + Backend" where
  "Backend_init p =
     (case BloomFilter_init FILTER_SIZE HASH_ROUNDS 0 of
        Inl e \<Rightarrow> Inl e
      | Inr b \<Rightarrow> Inr \<lparr> bf = b, port = p \<rparr>)"

text \<open>
  What one iteration of the accept loop of \<open>Backend.start\<close> does with a connection:
  either it sends a reply, closes the connection and keeps a (possibly updated)
  backend, or an exception leaves the loop with nothing sent.
\<close>

datatype outcome =
    Replied Backend string
  | Raised error

definition MSG_CBF :: string where
  "MSG_CBF = ''Server: Contact Bloom Filter received.''"

definition MSG_POSITIVE :: string where
  "MSG_POSITIVE = ''Server: You have been in contact with a positive case.''"

definition MSG_NEGATIVE :: string where
  "MSG_NEGATIVE = ''Server: No contact with a positive case was detected.''"

definition match_analysis :: "Backend \<Rightarrow> BloomFilter \<Rightarrow> outcome option" where
  "match_analysis self client_bf =
     (case bf_and (bf self) client_bf of
        Inl e \<Rightarrow> Some (Raised e)
      | Inr both \<Rightarrow>
          (case count both of
             None \<Rightarrow> None
           | Some c \<Rightarrow>
               if c \<ge> HASH_ROUNDS then Some (Replied self MSG_POSITIVE)
               else Some (Replied self MSG_NEGATIVE)))"

definition handle_connection :: "Backend \<Rightarrow> conn \<Rightarrow> outcome option" where
  "handle_connection self sock =
     (case sock_recv sock 3 of
        (raw_type, sock1) \<Rightarrow>
          (case decode raw_type of
             Inl e \<Rightarrow> Some (Raised e)
           | Inr type \<Rightarrow>
               (case recv sock1 (nat FILTER_SIZE) of
                  None \<Rightarrow> None
                | Some (data, sock2) \<Rightarrow>
                    (case BloomFilter_init FILTER_SIZE HASH_ROUNDS (from_bytes_little data) of
                       Inl e \<Rightarrow> Some (Raised e)
                     | Inr client_bf \<Rightarrow>
                         if type = str_lit ''CBF'' then
                           (case bf_or (bf self) client_bf of
                              Inl e \<Rightarrow> Some (Raised e)
                            | Inr merged \<Rightarrow> Some (Replied (self\<lparr>bf := merged\<rparr>) MSG_CBF))
                         else match_analysis self client_bf))))"

text \<open>
  The accept loop over the connections that arrive, in order. It stops at the first
  exception; a connection that never completes keeps it from returning.
\<close>

fun serve :: "Backend \<Rightarrow> conn list \<Rightarrow> (Backend \<times> string list \<times> error option) option" where
  "serve self [] = Some (self, [], None)"
| "serve self (c # cs) =
     (case handle_connection self c of
        None \<Rightarrow> None
      | Some (Raised e) \<Rightarrow> Some (self, [], Some e)
      | Some (Replied self' msg) \<Rightarrow>
          (case serve self' cs of
             None \<Rightarrow> None
           | Some (final, msgs, err) \<Rightarrow> Some (final, msg # msgs, err)))"


section \<open>Ed25519.py\<close>

text \<open>
  The built-in \<open>pow(x, e, m)\<close> by square and multiply. The program only calls it with
  the positive exponents \<open>q - 2\<close>, \<open>(q - 1) // 4\<close> and \<open>(q + 3) // 8\<close>.
\<close>

definition pow_step :: "int \<Rightarrow> int \<Rightarrow> int \<Rightarrow> int \<Rightarrow> int" where
  "pow_step x e m h = (if even e then h * h mod m else (h * h mod m) * x mod m)"

function py_pow :: "int \<Rightarrow> int \<Rightarrow> int \<Rightarrow> int" where
  "py_pow x e m = (if e \<le> 0 then 1 mod m else pow_step x e m (py_pow x (e div 2) m))"
  by pat_completeness auto
termination
  by (relation "measure (\<lambda>(x, e, m). nat e)") auto

declare py_pow.simps [simp del]

text \<open>The module constants \<open>b\<close>, \<open>q\<close>, \<open>l\<close>, \<open>d\<close> and \<open>I\<close>, and \<open>inv\<close> (here \<open>inv_q\<close>).\<close>

definition Ed25519_b :: int where
  "Ed25519_b = 256"

definition Ed25519_q :: int where
  "Ed25519_q = 2 ^ 255 - 19"

definition Ed25519_l :: int where
  "Ed25519_l = 2 ^ 252 + 27742317777372353535851937790883648493"

definition inv_q :: "int \<Rightarrow> int" where
  "inv_q x = py_pow x (Ed25519_q - 2) Ed25519_q"

definition Ed25519_d :: int where
  "Ed25519_d = - 121665 * inv_q 121666"

definition Ed25519_I :: int where
  "Ed25519_I = py_pow 2 ((Ed25519_q - 1) div 4) Ed25519_q"

definition xrecover :: "int \<Rightarrow> int" where
  "xrecover y =
     (let xx = (y * y - 1) * inv_q (Ed25519_d * y * y + 1);
          x = py_pow xx ((Ed25519_q + 3) div 8) Ed25519_q;
          x = (if (x * x - xx) mod Ed25519_q \<noteq> 0 then (x * Ed25519_I) mod Ed25519_q else x);
          x = (if x mod 2 \<noteq> 0 then Ed25519_q - x else x)
      in x)"

definition compress :: "int \<Rightarrow> int \<Rightarrow> int" where
  "compress x y = push_bit 1 y OR (x AND 1)"

text \<open>
  \<open>ECC.EccPoint\<close> is a class of the Crypto library. Its constructor takes the affine
  coordinates, which must be non-negative and fit 32 bytes, and raises ValueError when
  the point is not on the curve \<open>- x\<^sup>2 + y\<^sup>2 = 1 + d x\<^sup>2 y\<^sup>2\<close> modulo \<open>q\<close>; the point it
  builds reports its coordinates reduced modulo \<open>q\<close>.
\<close>

record EccPoint =
  point_x :: int
  point_y :: int

definition on_curve :: "int \<Rightarrow> int \<Rightarrow> bool" where
  "on_curve x y =
     ((y * y - x * x) mod Ed25519_q = (1 + Ed25519_d * x * x * y * y) mod Ed25519_q)"

definition EccPoint_init :: "int \<Rightarrow> int \<Rightarrow> error + EccPoint" where
  "EccPoint_init x y =
     (if x < 0 \<or> y < 0 \<or> 2 ^ 256 \<le> x \<or> 2 ^ 256 \<le> y then Inl ValueError
      else if on_curve x y
        then Inr \<lparr> point_x = x mod Ed25519_q, point_y = y mod Ed25519_q \<rparr>
      else Inl ValueError)"

definition compress_key :: "EccPoint \<Rightarrow> error + bytes" where
  "compress_key point = to_bytes_little (compress (point_x point) (point_y point)) 32"

definition decompress_key :: "bytes \<Rightarrow> error + EccPoint" where
  "decompress_key key_byte =
     (let key = from_bytes_little key_byte;
          x_odd = key AND 1;
          y = drop_bit 1 key;
          x = xrecover y;
          x = (if x AND 1 \<noteq> x_odd then Ed25519_q - x else x)
      in EccPoint_init x y)"


section \<open>sss.py\<close>

text \<open>
  A share is an index with a payload. \<open>Shamir.split\<close> and \<open>Shamir.combine\<close> of the
  Crypto library work on 16-byte secrets; they are parameters of the wrappers below.
  \<open>Shamir.split\<close> draws random coefficients, so it takes the randomness of the call as
  an argument, and the wrapper takes one such value per block.
\<close>

type_synonym Share = "int \<times> bytes"

type_synonym 'r shamir_split = "'r \<Rightarrow> int \<Rightarrow> int \<Rightarrow> bytes \<Rightarrow> error + Share list"
type_synonym shamir_combine = "Share list \<Rightarrow> error + bytes"

definition SHAMIR_BLOCK_SIZE :: nat where
  "SHAMIR_BLOCK_SIZE = 16"

text \<open>The slice \<open>s[i*SHAMIR_BLOCK_SIZE:(i+1)*SHAMIR_BLOCK_SIZE]\<close>.\<close>

definition block_of :: "bytes \<Rightarrow> nat \<Rightarrow> bytes" where
  "block_of s i = take SHAMIR_BLOCK_SIZE (drop (i * SHAMIR_BLOCK_SIZE) s)"

text \<open>
  The inner loop \<open>for j in range(n): shares[j] += block_shares[j][1]\<close>; an index beyond
  the list that \<open>Shamir.split\<close> returned raises IndexError.
\<close>

definition append_block :: "int \<Rightarrow> bytes list \<Rightarrow> Share list \<Rightarrow> error + bytes list" where
  "append_block n shares block_shares =
     (if length block_shares < nat n then Inl IndexError
      else Inr (map (\<lambda>j. shares ! j @ snd (block_shares ! j)) [0 ..< nat n]))"

fun split_blocks ::
  "'r shamir_split \<Rightarrow> (nat \<Rightarrow> 'r) \<Rightarrow> int \<Rightarrow> int \<Rightarrow> bytes \<Rightarrow> nat list \<Rightarrow> bytes list
     \<Rightarrow> error + bytes list" where
  "split_blocks Split rnd k n secret [] shares = Inr shares"
| "split_blocks Split rnd k n secret (i # rest) shares =
     (case Split (rnd i) k n (block_of secret i) of
        Inl e \<Rightarrow> Inl e
      | Inr block_shares \<Rightarrow>
          (case append_block n shares block_shares of
             Inl e \<Rightarrow> Inl e
           | Inr shares' \<Rightarrow> split_blocks Split rnd k n secret rest shares'))"

definition split ::
  "'r shamir_split \<Rightarrow> (nat \<Rightarrow> 'r) \<Rightarrow> int \<Rightarrow> int \<Rightarrow> bytes \<Rightarrow> error + Share list" where
  "split Split rnd k n secret =
     (if length secret mod SHAMIR_BLOCK_SIZE \<noteq> 0 then Inl ValueError
      else
        (case split_blocks Split rnd k n secret [0 ..< length secret div SHAMIR_BLOCK_SIZE]
                (replicate (nat n) []) of
           Inl e \<Rightarrow> Inl e
         | Inr shares \<Rightarrow> Inr (map (\<lambda>i. (int i + 1, shares ! i)) [0 ..< nat n])))"

text \<open>The checks of \<open>combine\<close> on every share, in order.\<close>

fun check_shares :: "nat \<Rightarrow> Share list \<Rightarrow> error option" where
  "check_shares share_len [] = None"
| "check_shares share_len (share # rest) =
     (if length (snd share) mod SHAMIR_BLOCK_SIZE \<noteq> 0 then Some ValueError
      else if length (snd share) \<noteq> share_len then Some ValueError
      else check_shares share_len rest)"

fun combine_blocks :: "shamir_combine \<Rightarrow> Share list \<Rightarrow> nat list \<Rightarrow> bytes \<Rightarrow> error + bytes" where
  "combine_blocks Combine shares [] result = Inr result"
| "combine_blocks Combine shares (i # rest) result =
     (case Combine (map (\<lambda>(idx, share). (idx, block_of share i)) shares) of
        Inl e \<Rightarrow> Inl e
      | Inr block \<Rightarrow> combine_blocks Combine shares rest (result @ block))"

definition combine :: "shamir_combine \<Rightarrow> Share list \<Rightarrow> error + bytes" where
  "combine Combine shares =
     (case shares of
        [] \<Rightarrow> Inl IndexError
      | first # _ \<Rightarrow>
          (let share_len = length (snd first) in
           case check_shares share_len shares of
             Some e \<Rightarrow> Inl e
           | None \<Rightarrow>
               combine_blocks Combine shares [0 ..< share_len div SHAMIR_BLOCK_SIZE] []))"

text \<open>
  \<open>verify\<close>: the reconstructed secret when its BLAKE2b digest equals the given hash,
  otherwise \<open>False\<close> (here \<open>None\<close>).
\<close>

definition verify :: "shamir_combine \<Rightarrow> Share list \<Rightarrow> bytes \<Rightarrow> error + bytes option" where
  "verify Combine shares hash =
     (case combine Combine shares of
        Inl e \<Rightarrow> Inl e
      | Inr shared \<Rightarrow>
          (case blake2b shared 32 [] of
             Inl e \<Rightarrow> Inl e
           | Inr shared_hash \<Rightarrow> Inr (if hash = shared_hash then Some shared else None)))"


text \<open>
  \<open>generate\<close>: \<open>ECC.generate\<close> draws a key pair, given here as the private scalar
  \<open>key_d\<close> and the public point \<open>key_Q\<close>. The result pairs every share with the scalar
  and the hash of the compressed public point.
\<close>

type_synonym Packet = "Share \<times> int \<times> bytes"

definition generate ::
  "'r shamir_split \<Rightarrow> (nat \<Rightarrow> 'r) \<Rightarrow> int \<Rightarrow> EccPoint \<Rightarrow> int \<Rightarrow> int \<Rightarrow> error + Packet list" where
  "generate Split rnd key_d key_Q k n =
     (case compress_key key_Q of
        Inl e \<Rightarrow> Inl e
      | Inr public \<Rightarrow>
          (case blake2b public 32 [] of
             Inl e \<Rightarrow> Inl e
           | Inr h \<Rightarrow>
               (case split Split rnd k n public of
                  Inl e \<Rightarrow> Inl e
                | Inr shares \<Rightarrow> Inr (map (\<lambda>share. (share, key_d, h)) shares))))"

text \<open>
  \<open>calc_shared\<close>: the x coordinate of the scalar multiple of the decompressed point.
  The multiplication of a point by an integer is the library's; it is the parameter
  \<open>Mul\<close>.
\<close>

type_synonym ecc_mul = "EccPoint \<Rightarrow> int \<Rightarrow> error + EccPoint"

definition calc_shared :: "ecc_mul \<Rightarrow> bytes \<Rightarrow> int \<Rightarrow> error + int" where
  "calc_shared Mul public secret =
     (case decompress_key public of
        Inl e \<Rightarrow> Inl e
      | Inr point \<Rightarrow>
          (case Mul point secret of
             Inl e \<Rightarrow> Inl e
           | Inr shared \<Rightarrow> Inr (point_x shared)))"

text \<open>
  A small instance of the primitive, used to exercise the wrappers: two-out-of-two
  sharing by exclusive or. The first share is the pad (16 random bytes), the second the
  secret masked with the pad; the two payloads combine to the secret in either order.
\<close>

definition xor_bytes :: "bytes \<Rightarrow> bytes \<Rightarrow> bytes" where
  "xor_bytes a b = map (\<lambda>(u, v). u XOR v) (zip a b)"







section \<open>timekeeper.py\<close>

text \<open>
  Clock readings are real numbers of seconds since the start; \<open>TIME_SCALE\<close> is 1. A task
  of the scheduler runs at one instant \<open>now\<close>, which stands for every \<open>time.rel()\<close> it
  reads. The float remainder \<open>a % b\<close> for a positive \<open>b\<close> is \<open>fmod\<close>.
\<close>

definition fmod :: "real \<Rightarrow> real \<Rightarrow> real" where
  "fmod a b = a - b * of_int \<lfloor>a / b\<rfloor>"

definition till_next :: "real \<Rightarrow> real \<Rightarrow> real" where
  "till_next interval now = interval - fmod now interval"


section \<open>client.py\<close>

definition EPHID_TIME :: real where
  "EPHID_TIME = 15"

definition SHARE_K :: int where
  "SHARE_K = 3"

definition SHARE_N :: int where
  "SHARE_N = 5"

definition SHARE_TIME :: real where
  "SHARE_TIME = 3"

definition SHARE_DROP :: real where
  "SHARE_DROP = 0.5"

definition SHARE_CLEAN_TIME :: real where
  "SHARE_CLEAN_TIME = of_int SHARE_N * SHARE_TIME * 2"

definition DBF_TIME :: int where
  "DBF_TIME = 90"

definition DBF_LIFE :: int where
  "DBF_LIFE = 540"

definition QBF_TIME :: real where
  "QBF_TIME = 540"

definition STRUCT_SIZE :: nat where
  "STRUCT_SIZE = 65"

text \<open>
  \<open>struct.pack("<B32s32s", idx, share, hash)\<close> and \<open>struct.unpack\<close> of the same format:
  packing needs \<open>0 \<le> idx \<le> 255\<close> and pads or cuts each bytes field to 32 bytes; unpacking
  needs exactly 65 bytes. Both raise \<open>struct.error\<close> otherwise.
\<close>

definition field32 :: "bytes \<Rightarrow> bytes" where
  "field32 b = take 32 (b @ replicate 32 0)"

definition pack :: "int \<Rightarrow> bytes \<Rightarrow> bytes \<Rightarrow> error + bytes" where
  "pack idx share hash =
     (if idx < 0 \<or> 255 < idx then Inl StructError
      else Inr (word_of_int idx # field32 share @ field32 hash))"

definition unpack :: "bytes \<Rightarrow> error + (int \<times> bytes \<times> bytes)" where
  "unpack raw =
     (if length raw \<noteq> STRUCT_SIZE then Inl StructError
      else Inr (uint (hd raw), take 32 (drop 1 raw), take 32 (drop 33 raw)))"

text \<open>
  The entries of the global scheduler \<open>SCHED\<close>: the time an action is due, its priority
  and the action.
\<close>

datatype task =
    Task_command
  | Task_eph_gen
  | Task_eph_share
  | Task_share_clean
  | Task_listen
  | Task_qbf_create
  | Task_dbf_cycle
  | Task_undo

record DBFContainer =
  dbfs :: "BloomFilter list"
  is_cbf :: bool

text \<open>
  The client object together with what it acts on: the scheduler queue and the
  datagrams it has broadcast (payload and destination port). The attribute \<open>dbf\<close> only
  exists once \<open>start\<close> has run.
\<close>

record Client =
  ip :: string
  server_port :: int
  ephs :: "Packet list"
  command_path :: string
  last_secret :: int
  location :: int
  shares :: "bytes \<rightharpoonup> real \<times> Share list"
  own_shares :: "bytes set"
  wait_time :: real
  dbf :: "DBFContainer option"
  sched :: "(real \<times> int \<times> task) list"
  sent :: "(bytes \<times> int) list"

definition Client_init :: "string \<Rightarrow> int \<Rightarrow> string \<Rightarrow> Client" where
  "Client_init i p path =
     \<lparr> ip = i, server_port = p, ephs = [], command_path = path, last_secret = 0,
       location = 0, shares = Map.empty, own_shares = {}, wait_time = 0, dbf = None,
       sched = [], sent = [] \<rparr>"

text \<open>\<open>SCHED.enter(delay, priority, action)\<close> at the instant \<open>now\<close>.\<close>

definition enter :: "real \<Rightarrow> real \<Rightarrow> int \<Rightarrow> task \<Rightarrow> Client \<Rightarrow> Client" where
  "enter now delay priority action self =
     self\<lparr>sched := sched self @ [(now + delay, priority, action)]\<rparr>"

text \<open>
  How a task ends: it returns, an exception leaves it, or it blocks for ever. Each
  carries the state reached at that point.
\<close>

datatype 'a result =
    Done 'a
  | Failed error 'a
  | Blocked 'a

text \<open>
  \<open>queue.Queue.get()\<close> with its default arguments blocks until an item is available;
  in this single-threaded program nothing can add one meanwhile, so on an empty queue
  the call never returns (\<open>None\<close>).
\<close>

definition queue_get :: "'a list \<Rightarrow> ('a \<times> 'a list) option" where
  "queue_get items = (case items of [] \<Rightarrow> None | item # rest \<Rightarrow> Some (item, rest))"

text \<open>\<open>DBFContainer.__init__\<close>, \<open>add\<close>, \<open>combine\<close> and \<open>dbf_cycle\<close>.\<close>

definition dbf_count :: nat where
  "dbf_count = nat (DBF_LIFE div DBF_TIME + 1)"

definition DBFContainer_init :: "real \<Rightarrow> Client \<Rightarrow> error + Client" where
  "DBFContainer_init now self =
     (case BloomFilter_init FILTER_SIZE HASH_ROUNDS 0 of
        Inl e \<Rightarrow> Inl e
      | Inr b \<Rightarrow>
          Inr (enter now (till_next (of_int DBF_TIME) now) 2 Task_dbf_cycle
                (enter now (till_next QBF_TIME now) 1 Task_qbf_create
                  (self\<lparr>dbf := Some \<lparr> dbfs = [b], is_cbf = False \<rparr>\<rparr>))))"

definition DBF_add :: "DBFContainer \<Rightarrow> int \<Rightarrow> DBFContainer \<times> error option" where
  "DBF_add c EncID =
     (case dbfs c of
        [] \<Rightarrow> (c, Some IndexError)
      | _ \<Rightarrow>
          (case add blake2b (last (dbfs c)) EncID of
             (b, e) \<Rightarrow> (c\<lparr>dbfs := butlast (dbfs c) @ [b]\<rparr>, e)))"

fun DBF_combine_loop :: "BloomFilter \<Rightarrow> BloomFilter list \<Rightarrow> error + BloomFilter" where
  "DBF_combine_loop cbf [] = Inr cbf"
| "DBF_combine_loop cbf (d # rest) =
     (case bf_or cbf d of Inl e \<Rightarrow> Inl e | Inr cbf' \<Rightarrow> DBF_combine_loop cbf' rest)"

definition DBF_combine :: "DBFContainer \<Rightarrow> error + BloomFilter" where
  "DBF_combine c =
     (case BloomFilter_init FILTER_SIZE HASH_ROUNDS 0 of
        Inl e \<Rightarrow> Inl e
      | Inr cbf \<Rightarrow> DBF_combine_loop cbf (dbfs c))"

definition dbf_cycle :: "real \<Rightarrow> Client \<Rightarrow> Client result" where
  "dbf_cycle now self =
     (let self = enter now (till_next (of_int DBF_TIME) now) 2 Task_dbf_cycle self in
      case dbf self of
        None \<Rightarrow> Failed AttributeError self
      | Some c \<Rightarrow>
          (case BloomFilter_init FILTER_SIZE HASH_ROUNDS 0 of
             Inl e \<Rightarrow> Failed e self
           | Inr b \<Rightarrow>
               Done (self\<lparr>dbf := Some (c\<lparr>dbfs :=
                       (let ds = dbfs c @ [b] in drop (length ds - dbf_count) ds)\<rparr>)\<rparr>)))"

text \<open>\<open>Client.eph_gen\<close>, with the key pair that \<open>ECC.generate\<close> draws.\<close>

definition eph_gen ::
  "'r shamir_split \<Rightarrow> (nat \<Rightarrow> 'r) \<Rightarrow> int \<Rightarrow> EccPoint \<Rightarrow> real \<Rightarrow> Client \<Rightarrow> Client result" where
  "eph_gen Split rnd key_d key_Q now self =
     (let self = enter now (till_next EPHID_TIME now) 1 Task_eph_gen self in
      case generate Split rnd key_d key_Q SHARE_K SHARE_N of
        Inl e \<Rightarrow> Failed e self
      | Inr packets \<Rightarrow>
          (let self = self\<lparr>ephs := ephs self @ packets\<rparr> in
           case packets of
             [] \<Rightarrow> Failed IndexError self
           | first # _ \<Rightarrow>
               Done (self\<lparr>own_shares := insert (snd (snd first)) (own_shares self)\<rparr>)))"

text \<open>
  \<open>Client.eph_share\<close>; \<open>r\<close> is the value that \<open>random.random()\<close> returns.
\<close>

definition eph_share :: "real \<Rightarrow> real \<Rightarrow> Client \<Rightarrow> Client result" where
  "eph_share r now self =
     (let self = enter now (till_next SHARE_TIME now) 1 Task_eph_share self in
      case queue_get (ephs self) of
        None \<Rightarrow> Blocked self
      | Some (share, rest) \<Rightarrow>
          (let self = self\<lparr>ephs := rest\<rparr> in
           if r < SHARE_DROP then Done self
           else
             (let self = self\<lparr>last_secret := fst (snd share)\<rparr> in
              case pack (fst (fst share)) (snd (fst share)) (snd (snd share)) of
                Inl e \<Rightarrow> Failed e self
              | Inr packet \<Rightarrow>
                  Done (self\<lparr>sent := sent self @ [(packet, location self)]\<rparr>))))"

text \<open>\<open>Client.share_clean\<close>.\<close>

definition share_clean :: "real \<Rightarrow> Client \<Rightarrow> Client result" where
  "share_clean now self =
     (let self = enter now (till_next EPHID_TIME now) 1 Task_share_clean self in
      Done (self\<lparr>shares := (\<lambda>k.
        case shares self k of
          None \<Rightarrow> None
        | Some v \<Rightarrow> if now - fst v > SHARE_CLEAN_TIME then None else Some v)\<rparr>))"

text \<open>
  \<open>Client.listen\<close>; \<open>received\<close> is the datagram that \<open>recvfrom\<close> returns, or \<open>None\<close>
  when no datagram is waiting. \<open>reconstruct\<close> is the part under
  \<open>if len(self.shares[hash][1]) >= SHARE_K\<close>.
\<close>

definition reconstruct ::
  "shamir_combine \<Rightarrow> ecc_mul \<Rightarrow> bytes \<Rightarrow> Client \<Rightarrow> Client result" where
  "reconstruct Combine Mul hash self =
     (case verify Combine (snd (the (shares self hash))) hash of
        Inl e \<Rightarrow> Failed e self
      | Inr None \<Rightarrow> Done self
      | Inr (Some public) \<Rightarrow>
          if public = [] then Done self
          else
            (case calc_shared Mul public (last_secret self) of
               Inl e \<Rightarrow> Failed e self
             | Inr EncID \<Rightarrow>
                 (case dbf self of
                    None \<Rightarrow> Failed AttributeError self
                  | Some c \<Rightarrow>
                      (case DBF_add c EncID of
                         (c', Some e) \<Rightarrow> Failed e (self\<lparr>dbf := Some c'\<rparr>)
                       | (c', None) \<Rightarrow>
                           Done (self\<lparr>dbf := Some c',
                                  shares := (shares self)
                                    (hash \<mapsto> (fst (the (shares self hash)), []))\<rparr>)))))"

definition listen ::
  "shamir_combine \<Rightarrow> ecc_mul \<Rightarrow> bytes option \<Rightarrow> real \<Rightarrow> Client \<Rightarrow> Client result" where
  "listen Combine Mul received now self =
     (let self = enter now 0.1 1 Task_listen self in
      case received of
        None \<Rightarrow> Done self
      | Some raw \<Rightarrow>
          (case unpack raw of
             Inl e \<Rightarrow> Failed e self
           | Inr (idx, share, hash) \<Rightarrow>
               if hash \<in> own_shares self then Done self
               else
                 (let entry = (case shares self hash of None \<Rightarrow> (now, []) | Some v \<Rightarrow> v);
                      self = self\<lparr>shares := (shares self)
                               (hash \<mapsto> (fst entry, snd entry @ [(idx, share)]))\<rparr>
                  in if int (length (snd (the (shares self hash)))) \<ge> SHARE_K
                     then reconstruct Combine Mul hash self
                     else Done self)))"

text \<open>
  A run of the node: timed events in the order the scheduler executes them. It stops
  at the first task that does not return.
\<close>

datatype event =
    Ev_listen "bytes option"
  | Ev_share_clean
  | Ev_eph_share real
  | Ev_dbf_cycle

definition step ::
  "shamir_combine \<Rightarrow> ecc_mul \<Rightarrow> real \<times> event \<Rightarrow> Client \<Rightarrow> Client result" where
  "step Combine Mul te self =
     (case te of
        (now, Ev_listen received) \<Rightarrow> listen Combine Mul received now self
      | (now, Ev_share_clean) \<Rightarrow> share_clean now self
      | (now, Ev_eph_share r) \<Rightarrow> eph_share r now self
      | (now, Ev_dbf_cycle) \<Rightarrow> dbf_cycle now self)"

fun run ::
  "shamir_combine \<Rightarrow> ecc_mul \<Rightarrow> (real \<times> event) list \<Rightarrow> Client \<Rightarrow> Client result" where
  "run Combine Mul [] self = Done self"
| "run Combine Mul (te # rest) self =
     (case step Combine Mul te self of
        Done self' \<Rightarrow> run Combine Mul rest self'
      | Failed e self' \<Rightarrow> Failed e self'
      | Blocked self' \<Rightarrow> Blocked self')"

text \<open>
  A stand-in for \<open>Shamir.combine\<close> that takes exactly three shares (three-out-of-three
  sharing by exclusive or) and raises ValueError on any other number; and a stand-in for
  the multiplication of a point that always raises. They serve to run \<open>listen\<close> on
  concrete datagrams.
\<close>

definition xor_combine3 :: shamir_combine where
  "xor_combine3 sel =
     (case sel of
        [a, b, c] \<Rightarrow> Inr (xor_bytes (xor_bytes (snd a) (snd b)) (snd c))
      | _ \<Rightarrow> Inl ValueError)"

definition no_mul :: ecc_mul where
  "no_mul point scalar = Inl ValueError"

text \<open>The datagram with share index \<open>i\<close>, an all-zero payload and the all-zero hash.\<close>

definition zero_packet :: "8 word \<Rightarrow> bytes" where
  "zero_packet i = i # replicate 64 0"

definition node0 :: Client where
  "node0 = Client_init ''127.0.0.1'' 55000 ''commands.txt''"

definition zeros32 :: bytes where
  "zeros32 = replicate 32 0"

text \<open>
  The node right after \<open>__init__\<close>, and the same node holding the shares \<open>collected\<close>
  under the all-zero hash since the instant 1, with the scheduler entries \<open>pending\<close>.
\<close>

definition collected_node :: "Share list \<Rightarrow> (real \<times> int \<times> task) list \<Rightarrow> Client" where
  "collected_node collected pending =
     node0\<lparr>shares := [zeros32 \<mapsto> (1, collected)], sched := pending\<rparr>"

section \<open>Facts about the Python helpers\<close>

lemma bit_length_nat_le: "bit_length_nat n \<le> k \<longleftrightarrow> n < 2 ^ k"
proof (induction n arbitrary: k rule: bit_length_nat.induct)
  case (1 n)
  show ?case
  proof (cases "n = 0")
    case True
    then show ?thesis by (simp add: bit_length_nat.simps)
  next
    case False
    note IH = 1[OF False]
    show ?thesis
    proof (cases k)
      case 0
      with False show ?thesis by (simp add: bit_length_nat.simps)
    next
      case (Suc j)
      have "n div 2 < 2 ^ j \<longleftrightarrow> n < 2 ^ Suc j" by auto
      with False Suc IH[of j] show ?thesis by (simp add: bit_length_nat.simps[of n])
    qed
  qed
qed

lemma bit_length_le: "0 \<le> k \<Longrightarrow> bit_length x \<le> k \<longleftrightarrow> \<bar>x\<bar> < 2 ^ nat k"
proof -
  assume k: "0 \<le> k"
  have "bit_length x \<le> k \<longleftrightarrow> bit_length_nat (nat \<bar>x\<bar>) \<le> nat k"
    using k by (simp add: bit_length_def le_nat_iff)
  also have "\<dots> \<longleftrightarrow> nat \<bar>x\<bar> < 2 ^ nat k"
    by (rule bit_length_nat_le)
  also have "\<dots> \<longleftrightarrow> \<bar>x\<bar> < 2 ^ nat k"
    by (simp add: nat_less_iff)
  finally show ?thesis .
qed

lemma bit_length_nonneg: "0 \<le> bit_length x"
  by (simp add: bit_length_def)

lemma from_bytes_little_nonneg: "0 \<le> from_bytes_little bs"
  by (induction bs) simp_all

lemma from_bytes_little_bound: "from_bytes_little bs < 2 ^ (8 * length bs)"
proof (induction bs)
  case Nil
  then show ?case by simp
next
  case (Cons b bs)
  have "uint b < 256" using uint_bounded[of b] by simp
  moreover have "from_bytes_little bs + 1 \<le> 2 ^ (8 * length bs)"
    using Cons.IH by simp
  then have "256 * (from_bytes_little bs + 1) \<le> 256 * 2 ^ (8 * length bs)"
    by (rule mult_left_mono) simp
  ultimately have "uint b + 256 * from_bytes_little bs < 256 * 2 ^ (8 * length bs)"
    by (simp add: algebra_simps)
  then show ?case by (simp add: power_add algebra_simps)
qed


section \<open>The counting loop\<close>

lemma popcount_double: "0 \<le> m \<Longrightarrow> popcount (2 * m) = popcount m"
  by (cases "m = 0") (simp_all add: popcount.simps[of "2 * m"] popcount.simps[of 0])

lemma popcount_double1: "0 \<le> m \<Longrightarrow> popcount (2 * m + 1) = 1 + popcount m"
  by (simp add: popcount.simps[of "2 * m + 1"])

lemma clear_lowest_bit:
  "0 < f \<Longrightarrow>
   0 \<le> f AND (f - 1) \<and> f AND (f - 1) < f \<and> popcount (f AND (f - 1)) + 1 = popcount f"
proof (induction "nat f" arbitrary: f rule: less_induct)
  case less
  show ?case
  proof (cases "even f")
    case True
    then obtain m where m: "f = 2 * m" by (elim evenE)
    with less.prems have mpos: "0 < m" by simp
    have IH: "0 \<le> m AND (m - 1) \<and> m AND (m - 1) < m
              \<and> popcount (m AND (m - 1)) + 1 = popcount m"
      using less.hyps[of m] mpos m by simp
    have "(f - 1) div 2 = m - 1" using m by simp
    moreover have "odd (f - 1)" using True by simp
    ultimately have "f AND (f - 1) = 2 * (m AND (m - 1))"
      using m by (subst and_rec) simp
    with IH m mpos show ?thesis by (simp add: popcount_double)
  next
    case False
    then obtain m where m: "f = 2 * m + 1" by (elim oddE)
    with less.prems have mpos: "0 \<le> m" by simp
    have "(f - 1) div 2 = m" "f div 2 = m" using m by simp_all
    moreover have "even (f - 1)" using False by simp
    ultimately have "f AND (f - 1) = 2 * m"
      by (subst and_rec) simp
    with m mpos show ?thesis by (simp add: popcount_double popcount_double1)
  qed
qed

lemma count_loop_popcount: "0 \<le> f \<Longrightarrow> count_loop c f = Some (c + popcount f)"
proof (induction "nat f" arbitrary: f c rule: less_induct)
  case less
  show ?case
  proof (cases "f = 0")
    case True
    then show ?thesis by (simp add: count_loop.simps[of c 0] popcount.simps[of 0])
  next
    case False
    with less.prems have pos: "0 < f" by simp
    note st = clear_lowest_bit[OF pos]
    have "count_loop (c + 1) (f AND (f - 1)) = Some (c + 1 + popcount (f AND (f - 1)))"
      using less.hyps[of "f AND (f - 1)" "c + 1"] st by simp
    with st False show ?thesis by (subst count_loop.simps) (simp add: algebra_simps)
  qed
qed


section \<open>The backend answers a query\<close>

lemma recv_loop_enough:
  "len - so_far \<le> length (concat sock) \<Longrightarrow>
   \<exists>sock'. recv_loop sock len data so_far
     = Some (concat data @ take (len - so_far) (concat sock), sock')"
proof (induction sock arbitrary: data so_far)
  case Nil
  then show ?case by (subst recv_loop.simps) simp
next
  case (Cons c cs)
  show ?case
  proof (cases "so_far < len")
    case False
    then show ?thesis by (subst recv_loop.simps) simp
  next
    case True
    show ?thesis
    proof (cases "length c \<le> len - so_far")
      case short: True
      have "len - (so_far + length c) \<le> length (concat cs)"
        using Cons.prems by simp
      from Cons.IH[OF this, of "data @ [c]"] obtain sock' where
        "recv_loop cs len (data @ [c]) (so_far + length c)
           = Some (concat (data @ [c]) @ take (len - (so_far + length c)) (concat cs), sock')"
        by blast
      with True short show ?thesis
        by (subst recv_loop.simps) simp
    next
      case long: False
      have "recv_loop (drop (len - so_far) c # cs) len (data @ [take (len - so_far) c]) len
              = Some (concat (data @ [take (len - so_far) c]), drop (len - so_far) c # cs)"
        by (subst recv_loop.simps) simp
      with True long show ?thesis
        by (subst recv_loop.simps) simp
    qed
  qed
qed

lemma recv_enough:
  "len \<le> length (concat sock) \<Longrightarrow> \<exists>sock'. recv sock len = Some (take len (concat sock), sock')"
  using recv_loop_enough[of len 0 sock "[[]]"] by (simp add: recv_def)

lemma BloomFilter_init_from_bytes:
  assumes "length data = nat bs" and "0 \<le> bs"
  shows "BloomFilter_init bs hr (from_bytes_little data)
         = Inr \<lparr> byte_size = bs, bit_size = bs * 8,
                 digest_size = ceil_div8 (bit_length (bs * 8)),
                 hash_rounds = hr, filter_val = from_bytes_little data \<rparr>"
proof -
  have "from_bytes_little data < 2 ^ (8 * length data)"
    by (rule from_bytes_little_bound)
  also have "8 * length data = nat (bs * 8)"
    using assms by (simp add: nat_mult_distrib)
  finally have "\<bar>from_bytes_little data\<bar> < 2 ^ nat (bs * 8)"
    using from_bytes_little_nonneg[of data] by simp
  then have "bit_length (from_bytes_little data) \<le> bs * 8"
    using assms by (subst bit_length_le) simp_all
  then show ?thesis by (simp add: BloomFilter_init_def)
qed

lemma bf_and_bounded:
  assumes "same_param a b" and "0 \<le> byte_size a"
    and "0 \<le> filter_val b" and "filter_val b < 2 ^ nat (byte_size a * 8)"
  shows "bf_and a b
         = Inr \<lparr> byte_size = byte_size a, bit_size = byte_size a * 8,
                 digest_size = ceil_div8 (bit_length (byte_size a * 8)),
                 hash_rounds = hash_rounds a, filter_val = filter_val a AND filter_val b \<rparr>"
proof -
  have nn: "0 \<le> filter_val a AND filter_val b"
    using assms(3) by simp
  have "filter_val a AND filter_val b \<le> filter_val b"
    using assms(3) by (rule AND_upper2)
  with assms(4) nn have "\<bar>filter_val a AND filter_val b\<bar> < 2 ^ nat (byte_size a * 8)"
    by simp
  then have "bit_length (filter_val a AND filter_val b) \<le> byte_size a * 8"
    using assms(2) by (subst bit_length_le) simp_all
  with assms(1) show ?thesis by (simp add: bf_and_def BloomFilter_init_def)
qed

lemma decode_QBF: "decode [0x51, 0x42, 0x46] = Inr (str_lit ''QBF'')"
  by (simp add: cons_ok_def str_lit_def)

lemma QBF_not_CBF: "str_lit ''QBF'' \<noteq> str_lit ''CBF''"
  by (simp add: str_lit_def)

lemma query_branch:
  assumes tag: "sock_recv sock 3 = (raw, rest)"
    and dec: "decode raw = Inr type"
    and other: "type \<noteq> str_lit ''CBF''"
    and len: "length q = nat FILTER_SIZE"
    and data: "q = take (nat FILTER_SIZE) (concat rest)"
    and params: "byte_size (bf self) = FILTER_SIZE" "hash_rounds (bf self) = HASH_ROUNDS"
  shows "handle_connection self sock
         = Some (Replied self
             (if popcount (filter_val (bf self) AND from_bytes_little q) \<ge> HASH_ROUNDS
              then MSG_POSITIVE else MSG_NEGATIVE))"
proof -
  have fs: "0 \<le> FILTER_SIZE" by (simp add: FILTER_SIZE_def)
  have "nat FILTER_SIZE \<le> length (concat rest)"
    using len data by (metis length_take min.cobounded2 min_def nat_le_linear)
  from recv_enough[OF this] obtain sock2 where
    rcv: "recv rest (nat FILTER_SIZE) = Some (q, sock2)"
    using data by auto
  define cbf where "cbf = \<lparr> byte_size = FILTER_SIZE, bit_size = FILTER_SIZE * 8,
                 digest_size = ceil_div8 (bit_length (FILTER_SIZE * 8)),
                 hash_rounds = HASH_ROUNDS, filter_val = from_bytes_little q \<rparr>"
  have init: "BloomFilter_init FILTER_SIZE HASH_ROUNDS (from_bytes_little q) = Inr cbf"
    unfolding cbf_def using len fs by (rule BloomFilter_init_from_bytes)
  have sp: "same_param (bf self) cbf"
    using params by (simp add: same_param_def cbf_def)
  have "from_bytes_little q < 2 ^ (8 * length q)"
    by (rule from_bytes_little_bound)
  also have "8 * length q = nat (byte_size (bf self) * 8)"
    using len fs params by (simp add: nat_mult_distrib)
  finally have bound: "filter_val cbf < 2 ^ nat (byte_size (bf self) * 8)"
    by (simp add: cbf_def)
  have nn: "0 \<le> filter_val cbf"
    by (simp add: cbf_def from_bytes_little_nonneg)
  have bpos: "0 \<le> byte_size (bf self)" using params fs by simp
  note both = bf_and_bounded[OF sp bpos nn bound]
  have "0 \<le> filter_val (bf self) AND filter_val cbf" using nn by simp
  then have cnt: "count_loop 0 (filter_val (bf self) AND filter_val cbf)
      = Some (0 + popcount (filter_val (bf self) AND filter_val cbf))"
    by (rule count_loop_popcount)
  have ma: "match_analysis self cbf
      = Some (Replied self
             (if popcount (filter_val (bf self) AND from_bytes_little q) \<ge> HASH_ROUNDS
              then MSG_POSITIVE else MSG_NEGATIVE))"
  proof -
    have fv: "filter_val cbf = from_bytes_little q" by (simp add: cbf_def)
    show ?thesis using cnt by (simp add: match_analysis_def both count_def fv)
  qed
  show ?thesis
    by (simp add: handle_connection_def tag dec rcv init other ma del: decode.simps)
qed

text \<open>
  A query whose tag arrives whole: when the first \<open>recv(3)\<close> of a connection returns the
  three bytes \<open>QBF\<close> and the connection then delivers the \<open>FILTER_SIZE\<close> bytes \<open>q\<close> (in
  chunks of any size), a backend whose standing filter has the canonical parameters replies
  the positive-contact string exactly when the number of set bits of (standing filter AND
  \<open>q\<close>) is at least \<open>HASH_ROUNDS\<close>, replies the no-detection string otherwise, and keeps
  its standing filter.
\<close>

lemma backend_qbf_reply:
  assumes "sock_recv sock 3 = ([0x51, 0x42, 0x46], rest)"
    and "length q = nat FILTER_SIZE"
    and "q = take (nat FILTER_SIZE) (concat rest)"
    and "byte_size (bf self) = FILTER_SIZE" "hash_rounds (bf self) = HASH_ROUNDS"
  shows "handle_connection self sock
         = Some (Replied self
             (if popcount (filter_val (bf self) AND from_bytes_little q) \<ge> HASH_ROUNDS
              then MSG_POSITIVE else MSG_NEGATIVE))
         \<and> MSG_POSITIVE \<noteq> MSG_NEGATIVE"
  using query_branch[OF assms(1) decode_QBF QBF_not_CBF assms(2-5)]
  by (simp add: MSG_POSITIVE_def MSG_NEGATIVE_def)

lemma MSG_distinct: "MSG_POSITIVE \<noteq> MSG_NEGATIVE"
  by (simp add: MSG_POSITIVE_def MSG_NEGATIVE_def)

lemma from_bytes_little_zeros: "from_bytes_little (replicate n 0) = 0"
  by (induction n) simp_all

lemma popcount_7: "popcount 7 = 3"
  by (simp add: popcount.simps[of 7] popcount.simps[of 3] popcount.simps[of 1] popcount.simps[of 0])

text \<open>
  An instance: the standing filter holds the bits 0, 1 and 2, and so does the query; the
  tag arrives in one piece.
\<close>

lemma backend_qbf_reply_whole_tag:
  "handle_connection
     \<lparr> bf = \<lparr> byte_size = FILTER_SIZE, bit_size = 800000, digest_size = 3,
                hash_rounds = HASH_ROUNDS, filter_val = 7 \<rparr>, port = 55000 \<rparr>
     [[0x51, 0x42, 0x46], 7 # replicate 99999 0]
   = Some (Replied
     \<lparr> bf = \<lparr> byte_size = FILTER_SIZE, bit_size = 800000, digest_size = 3,
                hash_rounds = HASH_ROUNDS, filter_val = 7 \<rparr>, port = 55000 \<rparr> MSG_POSITIVE)
   \<and> MSG_POSITIVE \<noteq> MSG_NEGATIVE"
proof -
  let ?q = "7 # replicate 99999 (0 :: byte)"
  let ?rest = "[?q]"
  have a: "sock_recv ([0x51, 0x42, 0x46] # ?rest) 3 = ([0x51, 0x42, 0x46], ?rest)" by simp
  have b: "length ?q = nat FILTER_SIZE" by (simp add: FILTER_SIZE_def)
  have c: "?q = take (nat FILTER_SIZE) (concat ?rest)" by (simp add: FILTER_SIZE_def)
  have v: "from_bytes_little ?q = 7" by (simp add: from_bytes_little_zeros)
  show ?thesis
    using backend_qbf_reply[OF a b c, of "\<lparr> bf = \<lparr> byte_size = FILTER_SIZE, bit_size = 800000, digest_size = 3,
                hash_rounds = HASH_ROUNDS, filter_val = 7 \<rparr>, port = 55000 \<rparr>"]
    by (simp add: from_bytes_little_zeros popcount_7 HASH_ROUNDS_def)
qed


subsection \<open>A tag that arrives in two pieces\<close>

lemma decode_Q: "decode [0x51] = Inr (str_lit ''Q'')"
  by (simp add: cons_ok_def str_lit_def)

lemma Q_not_CBF: "str_lit ''Q'' \<noteq> str_lit ''CBF''"
  by (simp add: str_lit_def)

lemma popcount_2: "popcount 2 = 1"
  by (simp add: popcount.simps[of 2] popcount.simps[of 1] popcount.simps[of 0])

lemma and_7_low: "0 \<le> m \<Longrightarrow> (7 :: int) AND (66 + 256 * m) = 2"
proof -
  have "(66 + 256 * m) mod 8 = 2" by presburger
  then have "take_bit 3 (66 + 256 * m) = 2" by (simp add: take_bit_eq_mod)
  moreover have "(7 :: int) AND (66 + 256 * m) = take_bit 3 (66 + 256 * m)"
    by (simp add: take_bit_eq_mask mask_eq_exp_minus_1 and.commute)
  ultimately show ?thesis by simp
qed

text \<open>
  C1 fails on the code when the tag is not delivered by one \<open>recv\<close>: the tag is read by
  a single \<open>conn.recv(3)\<close>, not by the looping helper \<open>Backend.recv\<close> that reads the
  filter. The byte stream is \<open>QBF\<close> followed by the 100000 bytes \<open>q\<close> with the bits 0, 1 and
  2 set, sent to a backend whose standing filter holds the same three bits; the first
  \<open>recv(3)\<close> returns only \<open>Q\<close>. The intersection of the standing filter with \<open>q\<close> has
  three set bits, so the reply should be the positive-contact string, but the backend takes
  the tag to be \<open>Q\<close>, reads \<open>BF\<close> and all but the last two bytes of \<open>q\<close> as the filter and
  replies the no-detection string.
\<close>

theorem backend_qbf_split_tag:
  "concat [[0x51], 0x42 # 0x46 # 7 # replicate 99999 0]
     = [0x51, 0x42, 0x46] @ (7 # replicate 99999 (0 :: byte))
   \<and> length (7 # replicate 99999 (0 :: byte)) = nat FILTER_SIZE
   \<and> popcount (filter_val (bf
        \<lparr> bf = \<lparr> byte_size = FILTER_SIZE, bit_size = 800000, digest_size = 3,
                   hash_rounds = HASH_ROUNDS, filter_val = 7 \<rparr>, port = 55000 \<rparr>)
          AND from_bytes_little (7 # replicate 99999 0)) \<ge> HASH_ROUNDS
   \<and> handle_connection
        \<lparr> bf = \<lparr> byte_size = FILTER_SIZE, bit_size = 800000, digest_size = 3,
                   hash_rounds = HASH_ROUNDS, filter_val = 7 \<rparr>, port = 55000 \<rparr>
        [[0x51], 0x42 # 0x46 # 7 # replicate 99999 0]
      = Some (Replied
        \<lparr> bf = \<lparr> byte_size = FILTER_SIZE, bit_size = 800000, digest_size = 3,
                   hash_rounds = HASH_ROUNDS, filter_val = 7 \<rparr>, port = 55000 \<rparr> MSG_NEGATIVE)
   \<and> MSG_NEGATIVE \<noteq> MSG_POSITIVE"
proof -
  let ?self = "\<lparr> bf = \<lparr> byte_size = FILTER_SIZE, bit_size = 800000, digest_size = 3,
                hash_rounds = HASH_ROUNDS, filter_val = 7 \<rparr>, port = 55000 \<rparr>"
  let ?q = "0x42 # 0x46 # 7 # replicate 99997 (0 :: byte)"
  let ?rest = "[0x42 # 0x46 # 7 # replicate 99999 (0 :: byte)]"
  have a: "sock_recv ([0x51] # ?rest) 3 = ([0x51], ?rest)" by simp
  have b: "length ?q = nat FILTER_SIZE" by (simp add: FILTER_SIZE_def)
  have c: "?q = take (nat FILTER_SIZE) (concat ?rest)" by (simp add: FILTER_SIZE_def)
  have v: "from_bytes_little ?q = 66 + 256 * (70 + 256 * 7)"
    by (simp add: from_bytes_little_zeros)
  have low: "(7 :: int) AND from_bytes_little ?q = 2"
    unfolding v by (rule and_7_low) simp
  have code: "handle_connection ?self ([0x51] # ?rest) = Some (Replied ?self MSG_NEGATIVE)"
    using query_branch[OF a decode_Q Q_not_CBF b c, of ?self] low
    by (simp add: popcount_2 HASH_ROUNDS_def del: decode.simps from_bytes_little.simps)
  have claim: "popcount (filter_val (bf ?self) AND from_bytes_little (7 # replicate 99999 0))
                 \<ge> HASH_ROUNDS"
    by (simp add: from_bytes_little_zeros popcount_7 HASH_ROUNDS_def)
  have cat: "concat [[0x51], 0x42 # 0x46 # 7 # replicate 99999 0]
     = [0x51, 0x42, 0x46] @ (7 # replicate 99999 (0 :: byte))" by simp
  have len: "length (7 # replicate 99999 (0 :: byte)) = nat FILTER_SIZE"
    by (simp add: FILTER_SIZE_def)
  from cat len claim code show ?thesis
    using MSG_distinct by (simp del: from_bytes_little.simps replicate.simps)
qed


section \<open>The backend and other type tags\<close>

lemma decode_XYZ: "decode [0x58, 0x59, 0x5A] = Inr (str_lit ''XYZ'')"
  by (simp add: cons_ok_def str_lit_def)

lemma XYZ_other: "str_lit ''XYZ'' \<noteq> str_lit ''CBF''" "str_lit ''XYZ'' \<noteq> str_lit ''QBF''"
  by (simp_all add: str_lit_def)

lemma popcount_0: "popcount 0 = 0"
  by (simp add: popcount.simps[of 0])

text \<open>
  C6 as stated fails: the accept loop only tests for \<open>CBF\<close>, and a connection with the
  tag \<open>XYZ\<close> and an all-zero filter is answered with the no-detection string.
\<close>

theorem backend_other_tag_counterexample:
  "decode [0x58, 0x59, 0x5A] = Inr (str_lit ''XYZ'')
   \<and> str_lit ''XYZ'' \<noteq> str_lit ''CBF'' \<and> str_lit ''XYZ'' \<noteq> str_lit ''QBF''
   \<and> handle_connection
        \<lparr> bf = \<lparr> byte_size = FILTER_SIZE, bit_size = 800000, digest_size = 3,
                   hash_rounds = HASH_ROUNDS, filter_val = 0 \<rparr>, port = 55000 \<rparr>
        [[0x58, 0x59, 0x5A], replicate 100000 0]
      = Some (Replied
        \<lparr> bf = \<lparr> byte_size = FILTER_SIZE, bit_size = 800000, digest_size = 3,
                   hash_rounds = HASH_ROUNDS, filter_val = 0 \<rparr>, port = 55000 \<rparr> MSG_NEGATIVE)"
proof -
  let ?q = "replicate 100000 (0 :: byte)"
  let ?rest = "[?q]"
  have a: "sock_recv ([0x58, 0x59, 0x5A] # ?rest) 3 = ([0x58, 0x59, 0x5A], ?rest)" by simp
  have b: "length ?q = nat FILTER_SIZE" by (simp add: FILTER_SIZE_def)
  have c: "?q = take (nat FILTER_SIZE) (concat ?rest)" by (simp add: FILTER_SIZE_def)
  show ?thesis
    using query_branch[OF a decode_XYZ XYZ_other(1) b c,
        of "\<lparr> bf = \<lparr> byte_size = FILTER_SIZE, bit_size = 800000, digest_size = 3,
                hash_rounds = HASH_ROUNDS, filter_val = 0 \<rparr>, port = 55000 \<rparr>"]
    by (simp add: from_bytes_little_zeros popcount_0 HASH_ROUNDS_def decode_XYZ XYZ_other
          del: decode.simps)
qed

text \<open>
  C6, amended: a connection whose type tag decodes to any string other than \<open>CBF\<close> (so
  also one that is neither \<open>CBF\<close> nor \<open>QBF\<close>) and that then delivers \<open>FILTER_SIZE\<close> bytes
  \<open>q\<close> is handled as a query: the backend replies the positive-contact or the no-detection
  string according to the number of set bits of (standing filter AND \<open>q\<close>), and keeps its
  standing filter.
\<close>

theorem backend_other_tag:
  assumes "sock_recv sock 3 = (raw, rest)"
    and "decode raw = Inr type"
    and "type \<noteq> str_lit ''CBF''" and "type \<noteq> str_lit ''QBF''"
    and "length q = nat FILTER_SIZE"
    and "q = take (nat FILTER_SIZE) (concat rest)"
    and "byte_size (bf self) = FILTER_SIZE" "hash_rounds (bf self) = HASH_ROUNDS"
  shows "handle_connection self sock
         = Some (Replied self
             (if popcount (filter_val (bf self) AND from_bytes_little q) \<ge> HASH_ROUNDS
              then MSG_POSITIVE else MSG_NEGATIVE))"
  using query_branch[OF assms(1-3) assms(5-8)] .

theorem backend_other_tag_witness:
  "handle_connection
     \<lparr> bf = \<lparr> byte_size = FILTER_SIZE, bit_size = 800000, digest_size = 3,
                hash_rounds = HASH_ROUNDS, filter_val = 7 \<rparr>, port = 55000 \<rparr>
     [[0x58, 0x59, 0x5A], 7 # replicate 99999 0]
   = Some (Replied
     \<lparr> bf = \<lparr> byte_size = FILTER_SIZE, bit_size = 800000, digest_size = 3,
                hash_rounds = HASH_ROUNDS, filter_val = 7 \<rparr>, port = 55000 \<rparr> MSG_POSITIVE)"
proof -
  let ?q = "7 # replicate 99999 (0 :: byte)"
  let ?rest = "[?q]"
  have a: "sock_recv ([0x58, 0x59, 0x5A] # ?rest) 3 = ([0x58, 0x59, 0x5A], ?rest)" by simp
  have b: "length ?q = nat FILTER_SIZE" by (simp add: FILTER_SIZE_def)
  have c: "?q = take (nat FILTER_SIZE) (concat ?rest)" by (simp add: FILTER_SIZE_def)
  show ?thesis
    using backend_other_tag[OF a decode_XYZ XYZ_other b c,
        of "\<lparr> bf = \<lparr> byte_size = FILTER_SIZE, bit_size = 800000, digest_size = 3,
                hash_rounds = HASH_ROUNDS, filter_val = 7 \<rparr>, port = 55000 \<rparr>"]
    by (simp add: from_bytes_little_zeros popcount_7 HASH_ROUNDS_def)
qed


section \<open>Bounds of the bloom filter\<close>

lemma BloomFilter_init_Inr:
  "BloomFilter_init bs hr f = Inr b \<Longrightarrow>
     0 \<le> bs \<and> \<bar>f\<bar> < 2 ^ nat (bs * 8) \<and>
     b = \<lparr> byte_size = bs, bit_size = bs * 8, digest_size = ceil_div8 (bit_length (bs * 8)),
           hash_rounds = hr, filter_val = f \<rparr>"
proof -
  assume a: "BloomFilter_init bs hr f = Inr b"
  then have le: "bit_length f \<le> bs * 8"
    by (simp add: BloomFilter_init_def split: if_splits)
  with bit_length_nonneg[of f] have bs: "0 \<le> bs" by simp
  with le have "\<bar>f\<bar> < 2 ^ nat (bs * 8)" by (subst (asm) bit_length_le) simp_all
  with a bs le show ?thesis by (simp add: BloomFilter_init_def)
qed

lemma init_in_bounds: "BloomFilter_init bs hr f = Inr b \<Longrightarrow> in_bounds b"
  by (drule BloomFilter_init_Inr) (auto simp add: in_bounds_def mult.commute)

lemma generate_hashes_index:
  "Inr idx \<in> set (generate_hashes H b key) \<Longrightarrow> 0 < bit_size b \<Longrightarrow> 0 \<le> idx \<and> idx < bit_size b"
  by (auto simp add: generate_hashes_def py_mod_def Let_def split: sum.splits if_splits)

lemma add_loop_fields:
  "add_loop b hs = (b', e) \<Longrightarrow>
     byte_size b' = byte_size b \<and> bit_size b' = bit_size b \<and> digest_size b' = digest_size b
     \<and> hash_rounds b' = hash_rounds b"
  by (induction b hs rule: add_loop.induct) (auto split: sum.splits)

lemma add_loop_bound:
  "add_loop b hs = (b', e) \<Longrightarrow> \<forall>idx. Inr idx \<in> set hs \<longrightarrow> idx < n \<Longrightarrow>
   filter_val b < 2 ^ nat n \<Longrightarrow> filter_val b' < 2 ^ nat n"
proof (induction b hs rule: add_loop.induct)
  case (3 self index rest)
  show ?case
  proof (cases "index < 0")
    case True
    with 3 show ?thesis by (simp add: py_lshift_def)
  next
    case False
    then have sh: "py_lshift 1 index = Inr (2 ^ nat index)" by (simp add: py_lshift_def)
    have lt: "index < n" using 3 by simp
    have "filter_val self OR 2 ^ nat index < 2 ^ nat n"
    proof (cases "0 \<le> filter_val self")
      case True
      have "(2::int) ^ nat index < 2 ^ nat n" using lt False by simp
      with True "3.prems"(3) show ?thesis by (intro OR_upper) simp_all
    next
      case neg: False
      then have "filter_val self OR 2 ^ nat index < 0" by simp
      also have "(0::int) < 2 ^ nat n" by simp
      finally show ?thesis .
    qed
    with 3 sh show ?thesis by simp
  qed
qed simp_all

lemma add_in_bounds: "in_bounds b \<Longrightarrow> add H b key = (b', e) \<Longrightarrow> in_bounds b'"
proof -
  assume ib: "in_bounds b" and a: "add H b key = (b', e)"
  from a have al: "add_loop b (generate_hashes H b key) = (b', e)" by (simp add: add_def)
  note fl = add_loop_fields[OF al]
  show ?thesis
  proof (cases "bit_size b = 0")
    case True
    then have "\<forall>idx. Inr idx \<notin> set (generate_hashes H b key)"
      by (auto simp add: generate_hashes_def py_mod_def Let_def split: sum.splits)
    then have "\<forall>idx. Inr idx \<in> set (generate_hashes H b key) \<longrightarrow> idx < 8 * byte_size b" by simp
    from add_loop_bound[OF al this] ib fl show ?thesis by (simp add: in_bounds_def)
  next
    case False
    with ib have pos: "0 < bit_size b" by (simp add: in_bounds_def)
    have "idx < 8 * byte_size b" if "Inr idx \<in> set (generate_hashes H b key)" for idx
      using generate_hashes_index[OF that pos] ib by (simp add: in_bounds_def)
    then have "\<forall>idx. Inr idx \<in> set (generate_hashes H b key) \<longrightarrow> idx < 8 * byte_size b"
      by blast
    from add_loop_bound[OF al this] ib fl show ?thesis by (simp add: in_bounds_def)
  qed
qed

lemma bf_or_in_bounds: "bf_or a b = Inr c \<Longrightarrow> in_bounds c"
  by (auto simp add: bf_or_def split: if_splits dest: init_in_bounds)

lemma bf_and_in_bounds: "bf_and a b = Inr c \<Longrightarrow> in_bounds c"
  by (auto simp add: bf_and_def split: if_splits dest: init_in_bounds)

lemma reachable_in_bounds: "reachable H C b \<Longrightarrow> in_bounds b"
  by (induction rule: reachable.induct)
    (auto intro: init_in_bounds add_in_bounds bf_or_in_bounds bf_and_in_bounds)

lemma add_loop_nonneg:
  "add_loop b hs = (b', e) \<Longrightarrow> 0 \<le> filter_val b \<Longrightarrow> 0 \<le> filter_val b'"
  by (induction b hs rule: add_loop.induct) (auto simp add: py_lshift_def split: sum.splits if_splits)

lemma reachable_small_nonneg:
  "reachable H {(bs, hr, f). bs \<le> FILTER_SIZE \<and> 0 \<le> f} b \<Longrightarrow> small_nonneg b"
proof (induction rule: reachable.induct)
  case (by_init bs hr f b)
  then show ?case by (auto dest!: BloomFilter_init_Inr simp add: small_nonneg_def)
next
  case (by_add b key b' e)
  then show ?case
    using add_loop_fields[of b "generate_hashes H b key" b' e]
      add_loop_nonneg[of b "generate_hashes H b key" b' e]
    by (simp add: add_def small_nonneg_def)
next
  case (by_or a b c)
  then show ?case
    by (auto simp add: bf_or_def small_nonneg_def split: if_splits dest!: BloomFilter_init_Inr)
next
  case (by_and a b c)
  then show ?case
    by (auto simp add: bf_and_def small_nonneg_def split: if_splits dest!: BloomFilter_init_Inr)
qed

lemma length_to_bytes_digits: "length (to_bytes_digits n x) = n"
  by (induction n arbitrary: x) simp_all

lemma to_bytes_little_negative: "x < 0 \<Longrightarrow> to_bytes_little x n = Inl OverflowError"
  by (simp add: to_bytes_little_def)

lemma to_bytes_little_large: "2 ^ (8 * n) \<le> x \<Longrightarrow> to_bytes_little x n = Inl OverflowError"
  by (simp add: to_bytes_little_def)

text \<open>
  C10, amended: every filter reachable through the constructor, \<open>add\<close>, union and
  intersection keeps its backing integer strictly below \<open>2 ^ (8 * byte_size)\<close>. When the
  constructor is only called with \<open>byte_size \<le> FILTER_SIZE\<close> and a non-negative initial
  value, the backing integer is also non-negative, and serializing it into exactly
  \<open>FILTER_SIZE\<close> bytes succeeds.
\<close>

theorem bloom_in_bounds:
  "(reachable H UNIV b \<longrightarrow> filter_val b < 2 ^ nat (8 * byte_size b))
   \<and> (reachable H {(bs, hr, f). bs \<le> FILTER_SIZE \<and> 0 \<le> f} b \<longrightarrow>
        0 \<le> filter_val b \<and> filter_val b < 2 ^ nat (8 * byte_size b)
        \<and> (\<exists>out. to_bytes_little (filter_val b) (nat FILTER_SIZE) = Inr out
               \<and> length out = nat FILTER_SIZE))"
proof (intro conjI impI)
  assume "reachable H UNIV b"
  then show "filter_val b < 2 ^ nat (8 * byte_size b)"
    by (auto dest: reachable_in_bounds simp add: in_bounds_def)
next
  assume r: "reachable H {(bs, hr, f). bs \<le> FILTER_SIZE \<and> 0 \<le> f} b"
  from reachable_small_nonneg[OF r] have sn: "byte_size b \<le> FILTER_SIZE" "0 \<le> filter_val b"
    by (simp_all add: small_nonneg_def)
  from reachable_in_bounds[OF r] have ib: "filter_val b < 2 ^ nat (8 * byte_size b)"
    by (simp add: in_bounds_def)
  show "0 \<le> filter_val b" by fact
  show "filter_val b < 2 ^ nat (8 * byte_size b)" by fact
  have "nat (8 * byte_size b) \<le> 8 * nat FILTER_SIZE" using sn by simp
  then have "(2::int) ^ nat (8 * byte_size b) \<le> 2 ^ (8 * nat FILTER_SIZE)"
    by (intro power_increasing) simp_all
  with ib have "filter_val b < 2 ^ (8 * nat FILTER_SIZE)" by (rule less_le_trans)
  with sn show "\<exists>out. to_bytes_little (filter_val b) (nat FILTER_SIZE) = Inr out
               \<and> length out = nat FILTER_SIZE"
    by (simp add: to_bytes_little_def length_to_bytes_digits)
qed


lemma bit_length_800000: "bit_length 800000 = 20"
  by (simp add: bit_length_def bit_length_nat.simps)

lemma bit_length_800008: "bit_length 800008 = 20"
  by (simp add: bit_length_def bit_length_nat.simps)

lemma digest_size_default: "ceil_div8 (bit_length (FILTER_SIZE * 8)) = 3"
  by (simp add: FILTER_SIZE_def bit_length_800000 ceil_div8_def)

lemma digest_size_larger: "ceil_div8 (bit_length ((FILTER_SIZE + 1) * 8)) = 3"
  by (simp add: FILTER_SIZE_def bit_length_800008 ceil_div8_def)

lemma bit_length_minus1: "bit_length (- 1) = 1"
  by (simp add: bit_length_def bit_length_nat.simps)

lemma BloomFilter_init_negative:
  "BloomFilter_init FILTER_SIZE HASH_ROUNDS (- 1)
   = Inr \<lparr> byte_size = FILTER_SIZE, bit_size = FILTER_SIZE * 8, digest_size = 3,
           hash_rounds = HASH_ROUNDS, filter_val = - 1 \<rparr>"
proof -
  have "\<not> bit_length (- 1) > FILTER_SIZE * 8"
    by (simp add: bit_length_minus1 FILTER_SIZE_def)
  then show ?thesis
    by (simp add: BloomFilter_init_def digest_size_default)
qed

lemma BloomFilter_init_power:
  assumes "0 \<le> n"
  shows "BloomFilter_init (n + 1) hr (2 ^ nat (8 * n))
   = Inr \<lparr> byte_size = n + 1, bit_size = (n + 1) * 8,
           digest_size = ceil_div8 (bit_length ((n + 1) * 8)),
           hash_rounds = hr, filter_val = 2 ^ nat (8 * n) \<rparr>"
proof -
  have "nat (8 * n) < nat ((n + 1) * 8)" using assms by simp
  then have "(2::int) ^ nat (8 * n) < 2 ^ nat ((n + 1) * 8)"
    by (intro power_strict_increasing) simp_all
  then have "\<bar>(2::int) ^ nat (8 * n)\<bar> < 2 ^ nat ((n + 1) * 8)" by simp
  then have "bit_length (2 ^ nat (8 * n)) \<le> (n + 1) * 8"
    using assms by (subst bit_length_le) simp_all
  then show ?thesis by (simp add: BloomFilter_init_def)
qed

text \<open>
  C10 as stated fails in its last part: the constructor accepts the initial value \<open>-1\<close>
  (its bit length is 1), and it accepts \<open>2 ^ 800000\<close> with \<open>byte_size = FILTER_SIZE + 1\<close>;
  neither value can be serialized into \<open>FILTER_SIZE\<close> bytes.
\<close>

theorem bloom_serialize_counterexample:
  "BloomFilter_init FILTER_SIZE HASH_ROUNDS (- 1)
     = Inr \<lparr> byte_size = FILTER_SIZE, bit_size = FILTER_SIZE * 8, digest_size = 3,
             hash_rounds = HASH_ROUNDS, filter_val = - 1 \<rparr>
   \<and> to_bytes_little (- 1) (nat FILTER_SIZE) = Inl OverflowError
   \<and> BloomFilter_init (FILTER_SIZE + 1) HASH_ROUNDS (2 ^ nat (8 * FILTER_SIZE))
     = Inr \<lparr> byte_size = FILTER_SIZE + 1, bit_size = (FILTER_SIZE + 1) * 8, digest_size = 3,
             hash_rounds = HASH_ROUNDS, filter_val = 2 ^ nat (8 * FILTER_SIZE) \<rparr>
   \<and> to_bytes_little (2 ^ nat (8 * FILTER_SIZE)) (nat FILTER_SIZE) = Inl OverflowError"
proof -
  have fs: "0 \<le> FILTER_SIZE" by (simp add: FILTER_SIZE_def)
  have e: "8 * nat FILTER_SIZE = nat (8 * FILTER_SIZE)" using fs by simp
  have big: "to_bytes_little (2 ^ nat (8 * FILTER_SIZE)) (nat FILTER_SIZE) = Inl OverflowError"
    by (rule to_bytes_little_large) (simp only: e order_refl)
  have neg: "to_bytes_little (- 1) (nat FILTER_SIZE) = Inl OverflowError"
    by (rule to_bytes_little_negative) simp
  show ?thesis
    using BloomFilter_init_negative BloomFilter_init_power[OF fs, of HASH_ROUNDS] big neg
    by (simp only: digest_size_larger simp_thms)
qed

subsection \<open>Union and membership\<close>

lemma generate_hashes_fields:
  "digest_size a = digest_size b \<Longrightarrow> bit_size a = bit_size b \<Longrightarrow>
   hash_rounds a = hash_rounds b \<Longrightarrow> generate_hashes H a k = generate_hashes H b k"
  by (auto simp add: generate_hashes_def split: sum.splits)

lemma bf_or_hashes:
  assumes "bf_or f g = Inr u" and "consistent f"
  shows "generate_hashes H u k = generate_hashes H f k"
    and "filter_val u = filter_val f OR filter_val g"
proof -
  from assms(1) have "BloomFilter_init (byte_size f) (hash_rounds f)
      (filter_val f OR filter_val g) = Inr u"
    by (simp add: bf_or_def split: if_splits)
  from BloomFilter_init_Inr[OF this] assms(2)
  have "digest_size u = digest_size f" "bit_size u = bit_size f"
    "hash_rounds u = hash_rounds f" and fv: "filter_val u = filter_val f OR filter_val g"
    by (simp_all add: consistent_def)
  then show "generate_hashes H u k = generate_hashes H f k"
    by (intro generate_hashes_fields)
  show "filter_val u = filter_val f OR filter_val g" by (rule fv)
qed

lemma same_param_hashes:
  "same_param f g \<Longrightarrow> consistent f \<Longrightarrow> consistent g \<Longrightarrow>
   generate_hashes H g k = generate_hashes H f k"
  by (rule generate_hashes_fields) (simp_all add: consistent_def same_param_def)

lemma subset_bits_or:
  fixes c :: int
  shows "(c AND a) = c \<or> (c AND b) = c \<Longrightarrow> (c AND (a OR b)) = c"
  by (auto simp add: bit_eq_iff bit_and_iff bit_or_iff)

text \<open>
  C4, amended: for two filters built with identical parameters, if one of them contains
  the key then so does their union. (The converse does not hold, see below.)
\<close>

theorem union_contains:
  assumes "consistent f" and "consistent g" and "bf_or f g = Inr u"
    and "bf_contains H f k = Inr True \<or> bf_contains H g k = Inr True"
  shows "bf_contains H u k = Inr True"
proof -
  from assms(3) have sp: "same_param f g" by (simp add: bf_or_def split: if_splits)
  note hu = bf_or_hashes[OF assms(3) assms(1)]
  note hg = same_param_hashes[OF sp assms(1) assms(2), of H k]
  from assms(4) obtain c where c: "checker_loop 0 (generate_hashes H f k) = Inr c"
    by (auto simp add: bf_contains_def hg split: sum.splits)
  with assms(4) have "(c AND filter_val f) = c \<or> (c AND filter_val g) = c"
    by (auto simp add: bf_contains_def hg)
  then have "(c AND (filter_val f OR filter_val g)) = c" by (rule subset_bits_or)
  with c show ?thesis by (simp add: bf_contains_def hu)
qed

subsection \<open>The key 0 under BLAKE2b\<close>


lemma hashes_key_0_raw:
  "generate_hashes blake2b \<lparr> byte_size = 100000, bit_size = 800000, digest_size = 3,
                    hash_rounds = 3, filter_val = 0 \<rparr> 0
   = [Inr 757706, Inr 271472, Inr 546131]"
  by code_simp

lemma hashes_key_0:
  "generate_hashes blake2b (default_bf f) 0 = [Inr (int idx_a), Inr (int idx_b), Inr (int idx_c)]"
proof -
  have "generate_hashes blake2b (default_bf f) 0
      = generate_hashes blake2b \<lparr> byte_size = 100000, bit_size = 800000, digest_size = 3,
                    hash_rounds = 3, filter_val = 0 \<rparr> 0"
    by (rule generate_hashes_fields)
      (simp_all add: default_bf_def FILTER_SIZE_def HASH_ROUNDS_def)
  then show ?thesis
    by (simp add: hashes_key_0_raw idx_a_def idx_b_def idx_c_def)
qed

lemma idx_distinct: "idx_a \<noteq> idx_b" "idx_a \<noteq> idx_c" "idx_b \<noteq> idx_c"
  by (simp_all add: idx_a_def idx_b_def idx_c_def)

lemma idx_bound: "idx_a < 800000" "idx_b < 800000" "idx_c < 800000"
  by (simp_all add: idx_a_def idx_b_def idx_c_def)

lemma checker_key_0:
  "checker_loop 0 [Inr (int idx_a), Inr (int idx_b), Inr (int idx_c)]
   = Inr (2 ^ idx_a OR 2 ^ idx_b OR 2 ^ idx_c)"
  by (simp add: py_lshift_def or.assoc)

lemma contains_key_0:
  "bf_contains blake2b (default_bf f) 0
   = Inr (((2 ^ idx_a OR 2 ^ idx_b OR 2 ^ idx_c) AND f) = (2 ^ idx_a OR 2 ^ idx_b OR 2 ^ idx_c))"
proof -
  have fv: "filter_val (default_bf f) = f" by (simp add: default_bf_def)
  show ?thesis
    by (simp add: bf_contains_def hashes_key_0 checker_key_0 fv del: checker_loop.simps)
qed

lemma three_bits_subset:
  fixes f :: int
  shows "((2 ^ a OR 2 ^ b OR 2 ^ c) AND f) = (2 ^ a OR 2 ^ b OR 2 ^ c)
     \<longleftrightarrow> bit f a \<and> bit f b \<and> bit f c"
proof
  assume eq: "((2 ^ a OR 2 ^ b OR 2 ^ c) AND f) = (2 ^ a OR 2 ^ b OR 2 ^ c)"
  have "bit ((2 ^ a OR 2 ^ b OR 2 ^ c) AND f) n = bit ((2 ^ a OR 2 ^ b OR 2 ^ c) :: int) n" for n
    using eq by simp
  from this[of a] this[of b] this[of c] show "bit f a \<and> bit f b \<and> bit f c"
    by (simp add: bit_and_iff bit_or_iff bit_exp_iff)
next
  assume "bit f a \<and> bit f b \<and> bit f c"
  then show "((2 ^ a OR 2 ^ b OR 2 ^ c) AND f) = (2 ^ a OR 2 ^ b OR 2 ^ c)"
    by (intro bit_eqI) (auto simp add: bit_and_iff bit_or_iff bit_exp_iff)
qed

lemma default_bf_init:
  assumes "\<bar>f\<bar> < 2 ^ nat (FILTER_SIZE * 8)"
  shows "BloomFilter_init FILTER_SIZE HASH_ROUNDS f = Inr (default_bf f)"
proof -
  have "0 \<le> FILTER_SIZE * 8" by (simp add: FILTER_SIZE_def)
  then have "bit_length f \<le> FILTER_SIZE * 8"
    using assms by (subst bit_length_le) simp_all
  then show ?thesis
    by (simp add: BloomFilter_init_def default_bf_def digest_size_default)
qed

lemma idx_power_bound: "(2::int) ^ idx_a < 2 ^ nat (FILTER_SIZE * 8)"
  "(2::int) ^ idx_b < 2 ^ nat (FILTER_SIZE * 8)" "(2::int) ^ idx_c < 2 ^ nat (FILTER_SIZE * 8)"
  by (intro power_strict_increasing; simp add: idx_a_def idx_b_def idx_c_def FILTER_SIZE_def)+

lemma default_bf_or:
  assumes "0 \<le> f" "f < 2 ^ nat (FILTER_SIZE * 8)" "0 \<le> g" "g < 2 ^ nat (FILTER_SIZE * 8)"
  shows "bf_or (default_bf f) (default_bf g) = Inr (default_bf (f OR g))"
proof -
  have "f OR g < 2 ^ nat (FILTER_SIZE * 8)" using assms by (intro OR_upper) simp_all
  moreover have "0 \<le> f OR g" using assms by simp
  ultimately have "BloomFilter_init FILTER_SIZE HASH_ROUNDS (f OR g) = Inr (default_bf (f OR g))"
    by (intro default_bf_init) simp
  then show ?thesis
    by (simp add: bf_or_def same_param_def default_bf_def)
qed

text \<open>
  C4 as stated fails in the direction from the union to the parts: the key 0 has the
  three indices \<open>idx_a\<close>, \<open>idx_b\<close>, \<open>idx_c\<close>; a filter holding only the first and a
  filter holding only the other two do not contain the key, their union does.
\<close>

theorem union_contains_counterexample:
  "bf_or cex_f cex_g = Inr cex_u
   \<and> bf_contains blake2b cex_u 0 = Inr True
   \<and> bf_contains blake2b cex_f 0 = Inr False
   \<and> bf_contains blake2b cex_g 0 = Inr False"
proof -
  have bc: "(2::int) ^ idx_b OR 2 ^ idx_c < 2 ^ nat (FILTER_SIZE * 8)"
    using idx_power_bound by (intro OR_upper) simp_all
  have "bf_or cex_f cex_g = Inr cex_u"
    unfolding cex_f_def cex_g_def cex_u_def
    using idx_power_bound(1) bc by (intro default_bf_or) simp_all
  moreover have "bf_contains blake2b cex_u 0 = Inr True"
    unfolding cex_u_def contains_key_0 three_bits_subset
    by (simp add: bit_or_iff bit_exp_iff)
  moreover have "bf_contains blake2b cex_f 0 = Inr False"
    unfolding cex_f_def contains_key_0 three_bits_subset
    using idx_distinct by (simp add: bit_or_iff bit_exp_iff)
  moreover have "bf_contains blake2b cex_g 0 = Inr False"
    unfolding cex_g_def contains_key_0 three_bits_subset
    using idx_distinct by (simp add: bit_or_iff bit_exp_iff)
  ultimately show ?thesis by simp
qed

text \<open>An instance of C4: a filter that contains the key 0, united with the empty filter.\<close>

theorem union_contains_witness:
  "bf_contains blake2b (default_bf (2 ^ idx_a OR (2 ^ idx_b OR 2 ^ idx_c))) 0 = Inr True"
proof -
  let ?f = "default_bf (2 ^ idx_a OR (2 ^ idx_b OR 2 ^ idx_c))" and ?g = "default_bf 0"
  have bc: "(2::int) ^ idx_b OR 2 ^ idx_c < 2 ^ nat (FILTER_SIZE * 8)"
    using idx_power_bound by (intro OR_upper) simp_all
  then have abc: "(2::int) ^ idx_a OR (2 ^ idx_b OR 2 ^ idx_c) < 2 ^ nat (FILTER_SIZE * 8)"
    using idx_power_bound by (intro OR_upper) simp_all
  have cf: "consistent ?f" and cg: "consistent ?g"
    by (simp_all add: consistent_def default_bf_def digest_size_default)
  have u: "bf_or ?f ?g = Inr ?f"
    using default_bf_or[of "2 ^ idx_a OR (2 ^ idx_b OR 2 ^ idx_c)" 0] abc by simp
  have "bf_contains blake2b ?f 0 = Inr True"
    unfolding contains_key_0 three_bits_subset by (simp add: bit_or_iff bit_exp_iff)
  then have "bf_contains blake2b ?f 0 = Inr True \<or> bf_contains blake2b ?g 0 = Inr True" ..
  from union_contains[OF cf cg u this] show ?thesis .
qed

text \<open>An instance of C10: the default filter after adding the key 0.\<close>

theorem bloom_in_bounds_witness:
  "reachable blake2b UNIV (fst (add blake2b (default_bf 0) 0))
   \<and> filter_val (fst (add blake2b (default_bf 0) 0))
       < 2 ^ nat (8 * byte_size (fst (add blake2b (default_bf 0) 0)))
   \<and> reachable blake2b {(bs, hr, f). bs \<le> FILTER_SIZE \<and> 0 \<le> f} (fst (add blake2b (default_bf 0) 0))
   \<and> (\<exists>out. to_bytes_little (filter_val (fst (add blake2b (default_bf 0) 0))) (nat FILTER_SIZE)
         = Inr out \<and> length out = nat FILTER_SIZE)"
proof -
  let ?b = "fst (add blake2b (default_bf 0) 0)"
  have i: "BloomFilter_init FILTER_SIZE HASH_ROUNDS 0 = Inr (default_bf 0)"
    by (rule default_bf_init) simp
  have a: "add blake2b (default_bf 0) 0 = (?b, snd (add blake2b (default_bf 0) 0))" by simp
  have r1: "reachable blake2b UNIV ?b"
    by (rule reachable.by_add[OF reachable.by_init[OF _ i] a]) simp
  have r2: "reachable blake2b {(bs, hr, f). bs \<le> FILTER_SIZE \<and> 0 \<le> f} ?b"
    by (rule reachable.by_add[OF reachable.by_init[OF _ i] a]) simp
  from bloom_in_bounds[of blake2b ?b] r1 r2 show ?thesis by blast
qed


section \<open>Block-wise secret sharing\<close>


















section \<open>The node\<close>

subsection \<open>The broadcaster on an empty queue\<close>


lemma fmod_bounds: "0 < b \<Longrightarrow> 0 \<le> fmod a b \<and> fmod a b < b"
proof -
  assume b: "0 < b"
  have "of_int \<lfloor>a / b\<rfloor> \<le> a / b" by simp
  then have lo: "of_int \<lfloor>a / b\<rfloor> * b \<le> a"
    by (rule pos_le_divide_eq[THEN iffD1, OF b])
  have "a / b < of_int \<lfloor>a / b\<rfloor> + 1" by linarith
  then have hi: "a < (of_int \<lfloor>a / b\<rfloor> + 1) * b"
    by (rule pos_divide_less_eq[THEN iffD1, OF b])
  from lo hi show ?thesis by (simp add: fmod_def algebra_simps)
qed

lemma till_next_boundary:
  assumes "0 < interval"
  shows "0 < till_next interval now"
    and "now + till_next interval now = interval * of_int (\<lfloor>now / interval\<rfloor> + 1)"
  using fmod_bounds[OF assms, of now] by (simp_all add: till_next_def fmod_def algebra_simps)

text \<open>
  C9, amended: if the share queue is empty when the broadcaster ticks, \<open>eph_share\<close>
  reschedules itself for the next \<open>SHARE_TIME\<close> boundary and then blocks in the dequeue:
  it sends no datagram and leaves \<open>LastSecret\<close> and all other node state unchanged, but
  it does not return.
\<close>

theorem eph_share_empty_queue:
  assumes "ephs self = []"
  shows "eph_share r now self
           = Blocked (self\<lparr>sched := sched self
                @ [(now + till_next SHARE_TIME now, 1, Task_eph_share)]\<rparr>)
         \<and> now < now + till_next SHARE_TIME now
         \<and> now + till_next SHARE_TIME now = SHARE_TIME * of_int (\<lfloor>now / SHARE_TIME\<rfloor> + 1)"
proof -
  have pos: "0 < SHARE_TIME" by (simp add: SHARE_TIME_def)
  have "eph_share r now self
           = Blocked (self\<lparr>sched := sched self
                @ [(now + till_next SHARE_TIME now, 1, Task_eph_share)]\<rparr>)"
    using assms by (simp add: eph_share_def enter_def queue_get_def Let_def)
  then show ?thesis using till_next_boundary[OF pos, of now] by simp
qed

text \<open>
  C9 as stated fails: on the fresh node, whose queue is empty, the tick at the instant 3
  does not return.
\<close>

theorem eph_share_empty_queue_counterexample:
  "eph_share (7 / 10) 3 node0 = Blocked (node0\<lparr>sched := [(6, 1, Task_eph_share)]\<rparr>)
   \<and> ephs node0 = []
   \<and> \<not> (\<exists>self'. eph_share (7 / 10) 3 node0 = Done self')"
  by (simp add: eph_share_def enter_def queue_get_def Let_def node0_def Client_init_def
      till_next_def fmod_def SHARE_TIME_def)

text \<open>An instance of C9: the tick at the instant 10 on the fresh node.\<close>

theorem eph_share_empty_queue_witness:
  "eph_share (1 / 4) 10 node0 = Blocked (node0\<lparr>sched := [(12, 1, Task_eph_share)]\<rparr>)"
proof -
  have e: "ephs node0 = []" by (simp add: node0_def Client_init_def)
  have s: "sched node0 = []" by (simp add: node0_def Client_init_def)
  have t: "till_next SHARE_TIME 10 = 2"
    by (simp add: till_next_def fmod_def SHARE_TIME_def)
  from eph_share_empty_queue[OF e, of "1 / 4" 10] show ?thesis
    by (simp add: s t)
qed


subsection \<open>Cleaning the share table\<close>

lemma SHARE_CLEAN_TIME_30: "SHARE_CLEAN_TIME = 30"
  by (simp add: SHARE_CLEAN_TIME_def SHARE_N_def SHARE_TIME_def)

lemma node0_fields: "own_shares node0 = {}" "shares node0 = Map.empty" "sched node0 = []"
  by (simp_all add: node0_def Client_init_def)

lemma collected_node_fields:
  "own_shares (collected_node c p) = {}" "shares (collected_node c p) zeros32 = Some (1, c)"
  "sched (collected_node c p) = p"
  by (simp_all add: collected_node_def node0_fields)

lemma unpack_zero_packet:
  "unpack (zero_packet i) = Inr (uint i, zeros32, zeros32)"
  by (simp add: unpack_def zero_packet_def STRUCT_SIZE_def zeros32_def)

lemma listen_below_K:
  "listen Combine Mul (Some (zero_packet 1)) 1 node0
     = Done (collected_node [(1, zeros32)] [(11 / 10, 1, Task_listen)])"
  "listen Combine Mul (Some (zero_packet 2)) 2 (collected_node [(1, zeros32)] p)
     = Done (collected_node [(1, zeros32), (2, zeros32)] (p @ [(21 / 10, 1, Task_listen)]))"
  by (simp_all add: listen_def unpack_zero_packet Let_def enter_def SHARE_K_def
      collected_node_def node0_fields)

lemma listen_nothing:
  "listen Combine Mul None now self = Done (self\<lparr>sched := sched self @ [(now + 1 / 10, 1, Task_listen)]\<rparr>)"
  by (simp add: listen_def enter_def)

lemma share_clean_keeps:
  "now \<le> 31 \<Longrightarrow>
   share_clean now (collected_node c p)
   = Done (collected_node c (p @ [(now + till_next EPHID_TIME now, 1, Task_share_clean)]))"
  by (auto simp add: share_clean_def enter_def Let_def collected_node_def SHARE_CLEAN_TIME_30
      fun_eq_iff intro!: Client.equality)

text \<open>
  C8, amended: a run of \<open>share_clean\<close> at the clock reading \<open>now\<close> discards exactly the
  entries first seen more than \<open>SHARE_CLEAN_TIME\<close> = 30 seconds before \<open>now\<close> and keeps
  every other entry as it was, so right after a run no entry is older than that; the run
  also enters itself into the scheduler again. Nothing is said about the table at other
  instants.
\<close>

theorem share_clean_discards:
  "\<exists>self'. share_clean now self = Done self'
     \<and> (\<forall>h v. shares self' h = Some v \<longrightarrow>
           shares self h = Some v \<and> now - fst v \<le> SHARE_CLEAN_TIME)
     \<and> (\<forall>h v. shares self h = Some v \<and> now - fst v \<le> SHARE_CLEAN_TIME \<longrightarrow>
           shares self' h = Some v)
     \<and> sched self' = sched self @ [(now + till_next EPHID_TIME now, 1, Task_share_clean)]"
  by (auto simp add: share_clean_def enter_def Let_def split: option.splits if_splits)

text \<open>An instance of C8: at the instant 45 the entry first seen at the instant 1 goes.\<close>

theorem share_clean_discards_witness:
  "\<exists>self'. share_clean 45 (collected_node [(1, zeros32)] []) = Done self'
     \<and> shares self' = Map.empty
     \<and> sched self' = [(60, 1, Task_share_clean)]"
proof -
  let ?self = "collected_node [(1, zeros32)] []"
  from share_clean_discards[of 45 ?self] obtain self' where
    d: "share_clean 45 ?self = Done self'"
    and old: "\<And>h v. shares self' h = Some v \<Longrightarrow>
           shares ?self h = Some v \<and> 45 - fst v \<le> SHARE_CLEAN_TIME"
    and s: "sched self' = sched ?self @ [(45 + till_next EPHID_TIME 45, 1, Task_share_clean)]"
    by blast
  have "shares self' h = None" for h
  proof (cases "shares self' h")
    case (Some v)
    from old[OF Some] show ?thesis
      by (auto simp add: collected_node_def SHARE_CLEAN_TIME_30 split: if_splits)
  qed simp
  then have "shares self' = Map.empty" by (simp add: fun_eq_iff)
  moreover have "till_next EPHID_TIME 45 = 15"
    by (simp add: till_next_def fmod_def EPHID_TIME_def)
  ultimately show ?thesis using d s by (simp add: collected_node_fields)
qed

text \<open>
  C8 as stated fails: an entry first seen at the instant 1 survives the runs of
  \<open>share_clean\<close> at the instants 15 and 30 (it is 14 and 29 seconds old), so at the instant
  40 it is still in the table, 39 seconds old, and the next run is due at 45.
\<close>

theorem share_clean_counterexample:
  "run xor_combine3 no_mul
     [(1, Ev_listen (Some (zero_packet 1))), (15, Ev_share_clean), (30, Ev_share_clean),
      (40, Ev_listen None)] node0
   = Done (collected_node [(1, zeros32)]
            [(11 / 10, 1, Task_listen), (30, 1, Task_share_clean),
             (45, 1, Task_share_clean), (401 / 10, 1, Task_listen)])
   \<and> shares (collected_node [(1, zeros32)]
            [(11 / 10, 1, Task_listen), (30, 1, Task_share_clean),
             (45, 1, Task_share_clean), (401 / 10, 1, Task_listen)]) zeros32
       = Some (1, [(1, zeros32)])
   \<and> 40 - (1 :: real) > SHARE_CLEAN_TIME"
proof -
  have t15: "till_next EPHID_TIME 15 = 15" and t30: "till_next EPHID_TIME 30 = 15"
    by (simp_all add: till_next_def fmod_def EPHID_TIME_def)
  show ?thesis
    by (simp add: step_def listen_below_K share_clean_keeps t15 t30 SHARE_CLEAN_TIME_30
        listen_nothing collected_node_fields)
      (simp add: collected_node_def)
qed

subsection \<open>Reconstruction\<close>


lemma blake2b_32_total: "\<exists>h. blake2b data 32 [] = Inr h"
  by (simp add: blake2b_def Let_def)

lemma verify_unfold:
  "verify Combine collected hash =
     (case combine Combine collected of
        Inl e \<Rightarrow> Inl e
      | Inr public \<Rightarrow> Inr (if blake2b public 32 [] = Inr hash then Some public else None))"
proof (cases "combine Combine collected")
  case (Inl e)
  then show ?thesis by (simp add: verify_def)
next
  case (Inr public)
  obtain h where h: "blake2b public 32 [] = Inr h" using blake2b_32_total by blast
  with Inr show ?thesis by (auto simp add: verify_def)
qed

text \<open>
  C5, amended: when a received share (not one of the node's own) brings the entry of its
  hash to at least \<open>K = 3\<close> shares, the reconstruction attempt combines all the shares
  collected under that hash, in the order of arrival. An error of the combination leaves
  the task; otherwise the candidate public key is hashed with BLAKE2b (32 bytes) and
  compared with the broadcast hash: on a mismatch the shares are kept, on a match the
  encounter identifier goes into the newest filter and the share list is emptied.
\<close>

theorem listen_reconstructs_all:
  assumes up: "unpack raw = Inr (idx, share, hash)"
    and own: "hash \<notin> own_shares self"
    and t0: "t0 = (case shares self hash of None \<Rightarrow> now | Some v \<Rightarrow> fst v)"
    and col: "collected = (case shares self hash of None \<Rightarrow> [] | Some v \<Rightarrow> snd v) @ [(idx, share)]"
    and enough: "SHARE_K \<le> int (length collected)"
    and s1: "self1 = (enter now 0.1 1 Task_listen self)\<lparr>shares := (shares self)
                        (hash \<mapsto> (t0, collected))\<rparr>"
  shows "(\<forall>e. combine Combine collected = Inl e \<longrightarrow>
            listen Combine Mul (Some raw) now self = Failed e self1)
       \<and> (\<forall>public. combine Combine collected = Inr public
              \<and> (blake2b public 32 [] \<noteq> Inr hash \<or> public = []) \<longrightarrow>
            listen Combine Mul (Some raw) now self = Done self1)
       \<and> (\<forall>public EncID c c'. combine Combine collected = Inr public
              \<and> blake2b public 32 [] = Inr hash \<and> public \<noteq> []
              \<and> calc_shared Mul public (last_secret self) = Inr EncID
              \<and> dbf self = Some c \<and> DBF_add c EncID = (c', None) \<longrightarrow>
            listen Combine Mul (Some raw) now self
              = Done (self1\<lparr>dbf := Some c', shares := (shares self1)(hash \<mapsto> (t0, []))\<rparr>))"
proof -
  have l: "listen Combine Mul (Some raw) now self = reconstruct Combine Mul hash self1"
    using up own enough
    by (cases "shares self hash")
       (simp_all add: listen_def Let_def enter_def t0 col s1)
  have sh: "shares self1 hash = Some (t0, collected)" by (simp add: s1)
  have ls: "last_secret self1 = last_secret self" "dbf self1 = dbf self"
    by (simp_all add: s1 enter_def)
  show ?thesis
    unfolding l reconstruct_def sh option.sel snd_conv fst_conv verify_unfold ls
    by (auto split: sum.splits)
qed


lemma blake2b_zeros32:
  "blake2b (replicate 32 0) 32 []
   = Inr [137, 235, 13, 106, 138, 105, 29, 174, 44, 209, 94, 208, 54, 153, 49, 206,
          10, 148, 158, 202, 250, 92, 63, 147, 248, 18, 24, 51, 100, 110, 21, 195]"
  by code_simp

lemma blake2b_zeros32_neq: "blake2b zeros32 32 [] \<noteq> Inr zeros32"
proof
  assume "blake2b zeros32 32 [] = Inr zeros32"
  then have "zeros32 = [137, 235, 13, 106, 138, 105, 29, 174, 44, 209, 94, 208, 54, 153, 49,
      206, 10, 148, 158, 202, 250, 92, 63, 147, 248, 18, 24, 51, 100, 110, 21, 195]"
    using blake2b_zeros32 by (simp add: zeros32_def)
  from arg_cong[OF this, of hd] show False by (simp add: zeros32_def)
qed

lemma block_of_zeros32: "block_of zeros32 0 = replicate 16 0" "block_of zeros32 (Suc 0) = replicate 16 0"
  by (simp_all add: block_of_def zeros32_def SHARE_K_def SHAMIR_BLOCK_SIZE_def)

lemma xor_zeros16: "xor_bytes (replicate 16 0) (replicate 16 0) = replicate 16 (0 :: byte)"
  by (simp add: xor_bytes_def zip_replicate)

lemma zeros16_twice: "replicate 16 0 @ replicate 16 0 = (zeros32 :: bytes)"
  by (simp add: zeros32_def replicate_add[symmetric])

lemma combine3_zeros:
  "combine xor_combine3 [(i, zeros32), (j, zeros32), (k, zeros32)] = Inr zeros32"
proof -
  have l: "length zeros32 = 32" by (simp add: zeros32_def)
  have b: "[0 ..< 32 div SHAMIR_BLOCK_SIZE] = [0, Suc 0]"
    by (simp add: SHAMIR_BLOCK_SIZE_def upt_rec)
  have m: "(32 :: nat) mod SHAMIR_BLOCK_SIZE = 0" by (simp add: SHAMIR_BLOCK_SIZE_def)
  show ?thesis
    unfolding combine_def
    by (simp add: l b m Let_def block_of_zeros32 xor_combine3_def xor_zeros16 zeros16_twice)
qed

lemma combine4_zeros:
  "combine xor_combine3 [(i, zeros32), (j, zeros32), (k, zeros32), (m, zeros32)] = Inl ValueError"
proof -
  have l: "length zeros32 = 32" by (simp add: zeros32_def)
  have b: "[0 ..< 32 div SHAMIR_BLOCK_SIZE] = [0, Suc 0]"
    by (simp add: SHAMIR_BLOCK_SIZE_def upt_rec)
  have m: "(32 :: nat) mod SHAMIR_BLOCK_SIZE = 0" by (simp add: SHAMIR_BLOCK_SIZE_def)
  show ?thesis
    unfolding combine_def
    by (simp add: l b m Let_def xor_combine3_def)
qed

text \<open>
  An instance of C5: the third share arrives, the combination of the three collected
  shares does not hash to the broadcast hash, and the shares are kept.
\<close>

theorem listen_reconstructs_all_witness:
  "listen xor_combine3 no_mul (Some (zero_packet 3)) 3
      (collected_node [(1, zeros32), (2, zeros32)] [])
   = Done (collected_node [(1, zeros32), (2, zeros32), (3, zeros32)]
            [(31 / 10, 1, Task_listen)])"
proof -
  let ?self = "collected_node [(1, zeros32), (2, zeros32)] []"
  let ?col = "[(1, zeros32), (2, zeros32), (3 :: int, zeros32)]"
  have up: "unpack (zero_packet 3) = Inr (3, zeros32, zeros32)"
    by (simp add: unpack_zero_packet)
  have own: "zeros32 \<notin> own_shares ?self" by (simp add: collected_node_fields)
  have t0: "(1 :: real) = (case shares ?self zeros32 of None \<Rightarrow> 3 | Some v \<Rightarrow> fst v)"
    by (simp add: collected_node_fields)
  have col: "?col = (case shares ?self zeros32 of None \<Rightarrow> [] | Some v \<Rightarrow> snd v) @ [(3, zeros32)]"
    by (simp add: collected_node_fields)
  have enough: "SHARE_K \<le> int (length ?col)" by (simp add: SHARE_K_def)
  have s1: "collected_node ?col [(31 / 10, 1, Task_listen)]
      = (enter 3 0.1 1 Task_listen ?self)\<lparr>shares := (shares ?self)(zeros32 \<mapsto> (1, ?col))\<rparr>"
    by (simp add: collected_node_def enter_def node0_fields)
  from listen_reconstructs_all[OF up own t0 col enough s1, of xor_combine3 no_mul]
  have "combine xor_combine3 ?col = Inr zeros32
              \<and> (blake2b zeros32 32 [] \<noteq> Inr zeros32 \<or> zeros32 = []) \<longrightarrow>
            listen xor_combine3 no_mul (Some (zero_packet 3)) 3 ?self
             = Done (collected_node ?col [(31 / 10, 1, Task_listen)])"
    by blast
  then show ?thesis using combine3_zeros blake2b_zeros32_neq by simp
qed

lemma listen_third:
  "listen xor_combine3 no_mul (Some (zero_packet 3)) 3
      (collected_node [(1, zeros32), (2, zeros32)] p)
   = Done (collected_node [(1, zeros32), (2, zeros32), (3, zeros32)]
            (p @ [(31 / 10, 1, Task_listen)]))"
  using combine3_zeros[of 1 2 3] blake2b_zeros32_neq
  by (simp add: listen_def unpack_zero_packet Let_def enter_def SHARE_K_def
      collected_node_def node0_fields reconstruct_def verify_unfold)

lemma listen_fourth:
  "listen xor_combine3 no_mul (Some (zero_packet 4)) 4
      (collected_node [(1, zeros32), (2, zeros32), (3, zeros32)] p)
   = Failed ValueError (collected_node [(1, zeros32), (2, zeros32), (3, zeros32), (4, zeros32)]
            (p @ [(41 / 10, 1, Task_listen)]))"
  using combine4_zeros[of 1 2 3 4]
  by (simp add: listen_def unpack_zero_packet Let_def enter_def SHARE_K_def
      collected_node_def node0_fields reconstruct_def verify_unfold)

text \<open>
  C5 as stated fails: after that failed attempt a fourth share arrives, and the attempt
  combines all four collected shares, not three of them. With a combination that takes
  exactly three shares this shows as its ValueError, although the last three shares alone
  combine.
\<close>

theorem listen_reconstructs_all_counterexample:
  "run xor_combine3 no_mul
     [(1, Ev_listen (Some (zero_packet 1))), (2, Ev_listen (Some (zero_packet 2))),
      (3, Ev_listen (Some (zero_packet 3))), (4, Ev_listen (Some (zero_packet 4)))] node0
   = Failed ValueError
       (collected_node [(1, zeros32), (2, zeros32), (3, zeros32), (4, zeros32)]
          [(11 / 10, 1, Task_listen), (21 / 10, 1, Task_listen), (31 / 10, 1, Task_listen),
           (41 / 10, 1, Task_listen)])
   \<and> combine xor_combine3 [(1, zeros32), (2, zeros32), (3, zeros32), (4, zeros32)]
       = Inl ValueError
   \<and> combine xor_combine3 [(2, zeros32), (3, zeros32), (4, zeros32)] = Inr zeros32"
  by (simp add: step_def listen_below_K listen_third listen_fourth combine4_zeros combine3_zeros)

end
